theory Spec2Isabelle
  imports Complex_Main "HOL-Library.Multiset"
begin

section \<open>Values, errors and dictionaries\<close>

text \<open>
  The records handled by \<^verbatim>\<open>main.py\<close> are what \<^verbatim>\<open>response.json()\<close> returns: \<^verbatim>\<open>None\<close>,
  booleans, integers, floats, strings, lists and dicts. A \<open>char\<close> stands for one code point
  of a Python \<^verbatim>\<open>str\<close>. A finite float is carried by the rational number it denotes
  (Python compares \<^verbatim>\<open>int\<close> and \<^verbatim>\<open>float\<close> by their exact values); the values \<^verbatim>\<open>NaN\<close>,
  \<^verbatim>\<open>Infinity\<close> and the negative zero are left out. Calls of the logger are left out as
  well.

  A Python dict keeps its items in insertion order, so it is a list of (key, value) pairs;
  nothing in the merged code ever deletes a key. After \<^verbatim>\<open>dict.update\<close> with a sequence of
  pairs a nested dict can hold keys that are not strings, so keys are values too.

  The functions below do not mutate anything: each returns the new value of what the Python
  mutates in place. This is exact as long as distinct records share no list or dict object,
  which holds for records parsed from two JSON responses.
\<close>

datatype json =
    JNull
  | JBool bool
  | JInt int
  | JFloat rat
  | JStr string
  | JList "json list"
  | JDict "(json \<times> json) list"

type_synonym pydict = "(json \<times> json) list"

text \<open>The exceptions the code can raise; a \<^verbatim>\<open>KeyError\<close> carries the missing key.\<close>

datatype py_error = KeyError json | TypeError | AttributeError | ValueError | IndexError

text \<open>Lists and dicts are unhashable: they cannot be dict keys or set elements.\<close>

fun hashable :: "json \<Rightarrow> bool" where
  "hashable (JList _) = False"
| "hashable (JDict _) = False"
| "hashable _ = True"

text \<open>
  Python's \<^verbatim>\<open>==\<close> (and hash) on hashable values: \<^verbatim>\<open>True == 1 == 1.0\<close>, every other pair of
  values of different types is unequal. \<open>hkey\<close> maps a value to the representative of its
  class.
\<close>

fun hkey :: "json \<Rightarrow> json" where
  "hkey (JBool b) = JFloat (if b then 1 else 0)"
| "hkey (JInt i) = JFloat (of_int i)"
| "hkey v = v"

definition py_eq :: "json \<Rightarrow> json \<Rightarrow> bool" where
  "py_eq a b = (hkey a = hkey b)"

text \<open>
  The lookup behind \<^verbatim>\<open>d[k]\<close>, \<^verbatim>\<open>d.get(k)\<close> and \<^verbatim>\<open>k in d\<close> (\<open>None\<close> when \<open>k\<close> is not in \<open>d\<close>).
\<close>

fun dict_lookup :: "json \<Rightarrow> pydict \<Rightarrow> json option" where
  "dict_lookup k [] = None"
| "dict_lookup k ((k', v) # d) = (if py_eq k' k then Some v else dict_lookup k d)"

text \<open>
  \<^verbatim>\<open>d[k] = v\<close>: an existing key keeps its position (and the key object stored first), a new
  key goes to the end.
\<close>

fun dict_store :: "json \<Rightarrow> json \<Rightarrow> pydict \<Rightarrow> pydict" where
  "dict_store k v [] = [(k, v)]"
| "dict_store k v ((k', v') # d) =
     (if py_eq k' k then (k', v) # d else (k', v') # dict_store k v d)"

text \<open>\<^verbatim>\<open>x[k]\<close> for a string literal \<open>k\<close>; only a dict can be subscripted by a string.\<close>

definition subscript :: "json \<Rightarrow> string \<Rightarrow> py_error + json" where
  "subscript x k =
     (case x of
        JDict d \<Rightarrow> (case dict_lookup (JStr k) d of
                      Some v \<Rightarrow> Inr v
                    | None \<Rightarrow> Inl (KeyError (JStr k)))
      | _ \<Rightarrow> Inl TypeError)"

text \<open>\<^verbatim>\<open>x.get(k, dflt)\<close>; among JSON values only a dict has the method.\<close>

definition get_method :: "json \<Rightarrow> string \<Rightarrow> json \<Rightarrow> py_error + json" where
  "get_method x k dflt =
     (case x of
        JDict d \<Rightarrow> Inr (case dict_lookup (JStr k) d of Some v \<Rightarrow> v | None \<Rightarrow> dflt)
      | _ \<Rightarrow> Inl AttributeError)"

text \<open>\<^verbatim>\<open>x[k] = v\<close> for a string literal \<open>k\<close>.\<close>

definition store_item :: "json \<Rightarrow> string \<Rightarrow> json \<Rightarrow> py_error + json" where
  "store_item x k v =
     (case x of
        JDict d \<Rightarrow> Inr (JDict (dict_store (JStr k) v d))
      | _ \<Rightarrow> Inl TypeError)"

text \<open>\<^verbatim>\<open>s + x\<close> with a string on the left.\<close>

definition str_add :: "string \<Rightarrow> json \<Rightarrow> py_error + string" where
  "str_add s x = (case x of JStr t \<Rightarrow> Inr (s @ t) | _ \<Rightarrow> Inl TypeError)"

text \<open>\<^verbatim>\<open>s.split(c)\<close> for a one-character separator: one piece more than separators.\<close>

fun split_on :: "char \<Rightarrow> string \<Rightarrow> string list" where
  "split_on c [] = [[]]"
| "split_on c (x # xs) =
     (if x = c then [] # split_on c xs
      else (case split_on c xs of
              w # ws \<Rightarrow> (x # w) # ws
            | [] \<Rightarrow> [[x]]))"

text \<open>\<^verbatim>\<open>x.split(" ")\<close>: only a string has the method.\<close>

definition split_method :: "json \<Rightarrow> py_error + string list" where
  "split_method x = (case x of JStr s \<Rightarrow> Inr (split_on CHR '' '' s) | _ \<Rightarrow> Inl AttributeError)"

text \<open>\<^verbatim>\<open>xs[i]\<close> on a list, for an index that is not negative.\<close>

definition list_item :: "'a list \<Rightarrow> nat \<Rightarrow> py_error + 'a" where
  "list_item xs i = (if i < length xs then Inr (xs ! i) else Inl IndexError)"

text \<open>Sequencing of steps that can raise: the first exception ends the computation.\<close>

definition and_then :: "'e + 'a \<Rightarrow> ('a \<Rightarrow> 'e + 'b) \<Rightarrow> 'e + 'b" where
  "and_then m f = (case m of Inl e \<Rightarrow> Inl e | Inr x \<Rightarrow> f x)"

section \<open>Key derivation\<close>

definition url_prefix :: string where
  "url_prefix = ''https://eoscmsweb.cern.ch/eos/cms/store/logs/prod/recent/PRODUCTION''"

text \<open>
  The body of the loop of \<^verbatim>\<open>add_log_htc\<close> for one entry; the result is the entry's
  \<^verbatim>\<open>_source\<close> after the assignment. \<^verbatim>\<open>entry["_source"]["data"]\<close> is evaluated several times
  by the source with nothing changed in between, so it is bound once here. The operands of
  the concatenation are evaluated from left to right.
\<close>

definition htc_entry :: "json \<Rightarrow> py_error + json" where
  "htc_entry entry =
     and_then (subscript entry ''_source'') (\<lambda>src.
     and_then (subscript src ''data'') (\<lambda>dat.
     and_then (subscript dat ''Args'') (\<lambda>a.
     and_then (split_method a) (\<lambda>args.
     and_then (subscript dat ''WMAgent_SubTaskName'') (\<lambda>t.
     and_then (str_add url_prefix t) (\<lambda>s1.
     and_then (subscript dat ''ScheddName'') (\<lambda>sn.
     and_then (str_add (s1 @ ''/'') sn) (\<lambda>s2.
     and_then (list_item args 1) (\<lambda>a1.
     and_then (list_item args 2) (\<lambda>a2.
     and_then (store_item dat ''EOSLogURL''
                 (JStr (s2 @ ''-'' @ a1 @ ''-'' @ a2 @ ''-log.tar.gz''))) (\<lambda>dat'.
     store_item src ''data'' dat')))))))))))"

fun add_log_htc :: "json list \<Rightarrow> py_error + json list" where
  "add_log_htc [] = Inr []"
| "add_log_htc (entry # rest) =
     and_then (htc_entry entry) (\<lambda>r.
     and_then (add_log_htc rest) (\<lambda>rs. Inr (r # rs)))"

text \<open>
  The body of the loop of \<^verbatim>\<open>add_log_wma\<close>. \<^verbatim>\<open>x == ""\<close> holds for the empty string only.
  \<^verbatim>\<open>entry["_source"]["data"]\<close> and its \<^verbatim>\<open>["meta_data"]\<close> are bound once, as above.
\<close>

definition wma_entry :: "json \<Rightarrow> py_error + json" where
  "wma_entry entry =
     and_then (subscript entry ''_source'') (\<lambda>src.
     and_then (subscript src ''data'') (\<lambda>dat.
     and_then (get_method dat ''EOSLogURL'' (JStr '''')) (\<lambda>cur.
     if cur = JStr '''' then
       and_then (subscript dat ''task'') (\<lambda>t.
       and_then (str_add url_prefix t) (\<lambda>s1.
       and_then (subscript dat ''meta_data'') (\<lambda>md.
       and_then (subscript md ''host'') (\<lambda>h.
       and_then (str_add (s1 @ ''/'') h) (\<lambda>s2.
       and_then (subscript md ''fwjr_id'') (\<lambda>f.
       and_then (str_add (s2 @ ''-'') f) (\<lambda>s3.
       and_then (store_item dat ''EOSLogURL'' (JStr (s3 @ ''-log.tar.gz''))) (\<lambda>dat'.
       store_item src ''data'' dat'))))))))
     else Inr src)))"

fun add_log_wma :: "json list \<Rightarrow> py_error + json list" where
  "add_log_wma [] = Inr []"
| "add_log_wma (entry # rest) =
     and_then (wma_entry entry) (\<lambda>r.
     and_then (add_log_wma rest) (\<lambda>rs. Inr (r # rs)))"

section \<open>Merging by URL\<close>

subsection \<open>Grouping\<close>

text \<open>\<^verbatim>\<open>item['data'].get('EOSLogURL')\<close>: the key a record is grouped under.\<close>

definition item_url :: "json \<Rightarrow> py_error + json" where
  "item_url item =
     and_then (subscript item ''data'') (\<lambda>dat. get_method dat ''EOSLogURL'' JNull)"

text \<open>
  \<^verbatim>\<open>url_groups[url].append(item)\<close> on the \<^verbatim>\<open>defaultdict(list)\<close>: a new key starts a group at
  the end, a known key has the item appended to its group.
\<close>

fun groups_append ::
  "json \<Rightarrow> json \<Rightarrow> (json \<times> json list) list \<Rightarrow> (json \<times> json list) list" where
  "groups_append url item [] = [(url, [item])]"
| "groups_append url item ((k, g) # gs) =
     (if py_eq k url then (k, g @ [item]) # gs else (k, g) # groups_append url item gs)"

text \<open>The first loop; a list or dict as the url is unhashable, a \<^verbatim>\<open>TypeError\<close>.\<close>

fun group_loop ::
  "(json \<times> json list) list \<Rightarrow> json list \<Rightarrow> py_error + (json \<times> json list) list" where
  "group_loop gs [] = Inr gs"
| "group_loop gs (item # rest) =
     and_then (item_url item) (\<lambda>url.
       if hashable url then group_loop (groups_append url item gs) rest else Inl TypeError)"

definition group_by_url :: "json list \<Rightarrow> py_error + (json \<times> json list) list" where
  "group_by_url dict_list = group_loop [] dict_list"

subsection \<open>Folding a group\<close>

text \<open>\<^verbatim>\<open>value if isinstance(value, list) else [value]\<close>\<close>

definition extend_arg :: "json \<Rightarrow> json list" where
  "extend_arg v = (case v of JList vs \<Rightarrow> vs | _ \<Rightarrow> [v])"

text \<open>\<^verbatim>\<open>isinstance(x, (str, int, float))\<close>; \<^verbatim>\<open>bool\<close> is a subclass of \<^verbatim>\<open>int\<close>.\<close>

fun is_primitive :: "json \<Rightarrow> bool" where
  "is_primitive (JStr _) = True"
| "is_primitive (JInt _) = True"
| "is_primitive (JBool _) = True"
| "is_primitive (JFloat _) = True"
| "is_primitive _ = False"

text \<open>
  \<^verbatim>\<open>set(xs)\<close> keeps, of several equal elements, the one added first. \<open>py_set\<close> lists the
  elements of the set in the order they were added. The order in which \<^verbatim>\<open>list(set(xs))\<close>
  iterates is fixed by the hash table and not by the source; it is the parameter
  \<open>set_order\<close> of everything below.
\<close>

definition set_add :: "json list \<Rightarrow> json \<Rightarrow> json list" where
  "set_add acc x = (if list_ex (\<lambda>y. py_eq y x) acc then acc else acc @ [x])"

definition py_set :: "json list \<Rightarrow> json list" where
  "py_set xs = foldl set_add [] xs"

definition list_of_set :: "(json list \<Rightarrow> json list) \<Rightarrow> json list \<Rightarrow> json list" where
  "list_of_set set_order xs = set_order (py_set xs)"

text \<open>
  What iterating a value yields (\<open>None\<close> for a value that is not iterable): the elements of
  a list, the characters of a string, the keys of a dict.
\<close>

definition seq_of :: "json \<Rightarrow> json list option" where
  "seq_of v =
     (case v of
        JList xs \<Rightarrow> Some xs
      | JStr s \<Rightarrow> Some (map (\<lambda>c. JStr [c]) s)
      | JDict d \<Rightarrow> Some (map fst d)
      | _ \<Rightarrow> None)"

text \<open>
  \<^verbatim>\<open>d.update(seq)\<close> for an argument that is not a dict: every element must itself be a
  sequence of length 2, a key and a value.
\<close>

fun update_pairs :: "json list \<Rightarrow> pydict \<Rightarrow> py_error + pydict" where
  "update_pairs [] d = Inr d"
| "update_pairs (item # rest) d =
     (case seq_of item of
        None \<Rightarrow> Inl TypeError
      | Some s \<Rightarrow>
          if length s \<noteq> 2 then Inl ValueError
          else if hashable (s ! 0) then update_pairs rest (dict_store (s ! 0) (s ! 1) d)
          else Inl TypeError)"

text \<open>\<^verbatim>\<open>d.update(value)\<close>\<close>

definition dict_update :: "pydict \<Rightarrow> json \<Rightarrow> py_error + pydict" where
  "dict_update d v =
     (case v of
        JDict d2 \<Rightarrow> Inr (foldl (\<lambda>acc kx. dict_store (fst kx) (snd kx) acc) d d2)
      | _ \<Rightarrow> (case seq_of v of
                None \<Rightarrow> Inl TypeError
              | Some items \<Rightarrow> update_pairs items d))"

text \<open>
  The body of the innermost loop: one \<open>(key, value)\<close> item of a record's \<^verbatim>\<open>data\<close> against
  \<^verbatim>\<open>merged_dict['data']\<close>.
\<close>

fun merge_field ::
  "(json list \<Rightarrow> json list) \<Rightarrow> pydict \<Rightarrow> json \<times> json \<Rightarrow> py_error + pydict" where
  "merge_field set_order md (key, val) =
     (case dict_lookup key md of
        None \<Rightarrow> Inr (dict_store key val md)
      | Some (JList xs) \<Rightarrow>
          (let ys = xs @ extend_arg val
           in Inr (dict_store key
                     (JList (if list_all is_primitive ys then list_of_set set_order ys else ys))
                     md))
      | Some (JDict sub) \<Rightarrow>
          and_then (dict_update sub val) (\<lambda>sub'. Inr (dict_store key (JDict sub') md))
      | Some _ \<Rightarrow> Inr (dict_store key val md))"

text \<open>\<^verbatim>\<open>for key, value in d['data'].items()\<close>\<close>

fun merge_items ::
  "(json list \<Rightarrow> json list) \<Rightarrow> pydict \<Rightarrow> pydict \<Rightarrow> py_error + pydict" where
  "merge_items set_order md [] = Inr md"
| "merge_items set_order md (kv # rest) =
     and_then (merge_field set_order md kv) (\<lambda>md'. merge_items set_order md' rest)"

text \<open>\<^verbatim>\<open>.items()\<close> exists on a dict only.\<close>

definition items_method :: "json \<Rightarrow> py_error + pydict" where
  "items_method x = (case x of JDict fs \<Rightarrow> Inr fs | _ \<Rightarrow> Inl AttributeError)"

text \<open>\<^verbatim>\<open>for d in group\<close>\<close>

fun merge_group_loop ::
  "(json list \<Rightarrow> json list) \<Rightarrow> pydict \<Rightarrow> json list \<Rightarrow> py_error + pydict" where
  "merge_group_loop set_order md [] = Inr md"
| "merge_group_loop set_order md (d # ds) =
     and_then (subscript d ''data'') (\<lambda>dat.
     and_then (items_method dat) (\<lambda>fs.
     and_then (merge_items set_order md fs) (\<lambda>md'.
     merge_group_loop set_order md' ds)))"

text \<open>One group folded from \<^verbatim>\<open>{'data': {}}\<close>.\<close>

definition merge_group :: "(json list \<Rightarrow> json list) \<Rightarrow> json list \<Rightarrow> py_error + json" where
  "merge_group set_order grp =
     and_then (merge_group_loop set_order [] grp)
       (\<lambda>md. Inr (JDict [(JStr ''data'', JDict md)]))"

subsection \<open>The two output lists\<close>

text \<open>The second loop, over \<^verbatim>\<open>url_groups.items()\<close>, with the two lists it appends to.\<close>

fun process_groups ::
  "(json list \<Rightarrow> json list) \<Rightarrow> (json \<times> json list) list \<Rightarrow> json list \<Rightarrow> json list
     \<Rightarrow> py_error + (json list \<times> json list)" where
  "process_groups set_order [] merged_dicts single_entries = Inr (merged_dicts, single_entries)"
| "process_groups set_order ((url, grp) # gs) merged_dicts single_entries =
     (if length grp > 1 then
        and_then (merge_group set_order grp) (\<lambda>merged_dict.
          process_groups set_order gs (merged_dicts @ [merged_dict]) single_entries)
      else
        and_then (list_item grp 0) (\<lambda>g0.
          process_groups set_order gs merged_dicts (single_entries @ [g0])))"

definition merge_dicts_by_url ::
  "(json list \<Rightarrow> json list) \<Rightarrow> json list \<Rightarrow> py_error + (json list \<times> json list)" where
  "merge_dicts_by_url set_order dict_list =
     and_then (group_by_url dict_list)
       (\<lambda>url_groups. process_groups set_order url_groups [] [])"

section \<open>Inputs used in the examples\<close>

text \<open>A hit as the backend returns it, \<^verbatim>\<open>{"_source": {"data": dat}}\<close>.\<close>

definition hit :: "pydict \<Rightarrow> json" where
  "hit dat = JDict [(JStr ''_source'', JDict [(JStr ''data'', JDict dat)])]"

text \<open>The HTC record of the specification's end-to-end example, for a given \<^verbatim>\<open>Args\<close>.\<close>

definition htc_fields :: "string \<Rightarrow> pydict" where
  "htc_fields args =
     [(JStr ''WMAgent_SubTaskName'', JStr ''/Task1''),
      (JStr ''ScheddName'', JStr ''sched1''),
      (JStr ''Args'', JStr args)]"

text \<open>
  The specification's words for \<^verbatim>\<open>Args\<close>, ``a whitespace-delimited string'': its tokens are
  the maximal runs of characters that are not whitespace (space, tab, line feed, vertical
  tab, form feed, carriage return). This is not what the source computes; it is here to be
  compared with \<open>split_on\<close>.
\<close>

definition is_whitespace :: "char \<Rightarrow> bool" where
  "is_whitespace c = (c = CHR '' '' \<or> c = CHR 0x09 \<or> c = CHR 0x0A \<or> c = CHR 0x0B
                      \<or> c = CHR 0x0C \<or> c = CHR 0x0D)"

fun ws_tokens_from :: "string \<Rightarrow> string \<Rightarrow> string list" where
  "ws_tokens_from cur [] = (if cur = [] then [] else [cur])"
| "ws_tokens_from cur (c # cs) =
     (if is_whitespace c
      then (if cur = [] then ws_tokens_from [] cs else cur # ws_tokens_from [] cs)
      else ws_tokens_from (cur @ [c]) cs)"

definition ws_tokens :: "string \<Rightarrow> string list" where
  "ws_tokens s = ws_tokens_from [] s"

text \<open>The WMA record of the specification's end-to-end example.\<close>

definition wma_fields :: pydict where
  "wma_fields =
     [(JStr ''task'', JStr ''/Task1''),
      (JStr ''meta_data'',
       JDict [(JStr ''host'', JStr ''sched1''), (JStr ''fwjr_id'', JStr ''a1-a2'')])]"

text \<open>
  A record as the merger receives it, with a key, one scalar field and a second top-level
  field next to \<^verbatim>\<open>data\<close>; and a batch of five of them with the keys u, v, u, w, v.
\<close>

definition rec_n :: "string \<Rightarrow> int \<Rightarrow> json" where
  "rec_n url n =
     JDict [(JStr ''data'', JDict [(JStr ''EOSLogURL'', JStr url), (JStr ''n'', JInt n)]),
            (JStr ''metadata'', JStr ''m'')]"

definition batch5 :: "json list" where
  "batch5 = [rec_n ''u'' 1, rec_n ''v'' 2, rec_n ''u'' 3, rec_n ''w'' 4, rec_n ''v'' 5]"

text \<open>Two records with the same key and different fields.\<close>

definition rec_a :: json where
  "rec_a = JDict [(JStr ''data'',
             JDict [(JStr ''EOSLogURL'', JStr ''u''), (JStr ''a'', JInt 1),
                    (JStr ''f'', JList [JStr ''x''])])]"

definition rec_b :: json where
  "rec_b = JDict [(JStr ''data'',
             JDict [(JStr ''b'', JInt 2), (JStr ''EOSLogURL'', JStr ''u''),
                    (JStr ''f'', JList [JStr ''y''])])]"

text \<open>A record with the key k and a sequence field \<^verbatim>\<open>f\<close>.\<close>

definition rec_f :: "json list \<Rightarrow> json" where
  "rec_f xs =
     JDict [(JStr ''data'', JDict [(JStr ''EOSLogURL'', JStr ''k''), (JStr ''f'', JList xs)])]"

text \<open>A record with the key k and a field \<^verbatim>\<open>meta\<close> of any value.\<close>

definition rec_meta :: "json \<Rightarrow> json" where
  "rec_meta v =
     JDict [(JStr ''data'', JDict [(JStr ''EOSLogURL'', JStr ''k''), (JStr ''meta'', v)])]"

text \<open>A record without \<^verbatim>\<open>EOSLogURL\<close>, and a batch with two of them.\<close>

definition rec_nokey :: "int \<Rightarrow> json" where
  "rec_nokey n = JDict [(JStr ''data'', JDict [(JStr ''n'', JInt n)])]"

definition batch_nokey :: "json list" where
  "batch_nokey = [rec_nokey 1, rec_n ''u'' 7, rec_nokey 2]"

section \<open>The specification's description of the grouping\<close>

text \<open>
  These three definitions follow the specification's words (``group records by derived key,
  preserving first-occurrence order of keys and of records within each group''); they are
  not taken from the source and are compared with \<open>group_by_url\<close> below.

  \<open>url_of\<close> is the key of a record whose key can be read, \<open>first_seen\<close> lists keys in the
  order of their first occurrence, \<open>members k\<close> are the records with key \<open>k\<close> in input
  order.
\<close>

definition url_of :: "json \<Rightarrow> json" where
  "url_of item = (case item_url item of Inr u \<Rightarrow> u | Inl e \<Rightarrow> JNull)"

fun first_seen :: "json list \<Rightarrow> json list" where
  "first_seen [] = []"
| "first_seen (k # ks) = k # filter (\<lambda>k'. \<not> py_eq k k') (first_seen ks)"

definition members :: "json \<Rightarrow> json list \<Rightarrow> json list" where
  "members k dict_list = filter (\<lambda>item. py_eq k (url_of item)) dict_list"

definition spec_groups :: "json list \<Rightarrow> (json \<times> json list) list" where
  "spec_groups dict_list =
     map (\<lambda>k. (k, members k dict_list)) (first_seen (map url_of dict_list))"

section \<open>Well-formed records\<close>

text \<open>
  A Python dict never holds two equal keys; a list of pairs can. \<open>wf_data\<close> says that the
  \<^verbatim>\<open>data\<close> of a record is a list of pairs that a dict can be. \<open>data_url\<close> is
  \<^verbatim>\<open>dat.get('EOSLogURL')\<close> for the items \<open>dat\<close> of a dict.
\<close>

definition wf_data :: "json \<Rightarrow> bool" where
  "wf_data item =
     (case subscript item ''data'' of
        Inr (JDict fs) \<Rightarrow> distinct (map (\<lambda>p. hkey (fst p)) fs)
      | _ \<Rightarrow> True)"

definition data_url :: "pydict \<Rightarrow> json" where
  "data_url dat = (case dict_lookup (JStr ''EOSLogURL'') dat of Some v \<Rightarrow> v | None \<Rightarrow> JNull)"

text \<open>
  The field names of a record's \<^verbatim>\<open>data\<close>, each taken up to Python's equality of keys (a
  string stands for itself).
\<close>

definition field_set :: "json \<Rightarrow> json set" where
  "field_set item =
     (case subscript item ''data'' of
        Inr (JDict fs) \<Rightarrow> hkey ` fst ` set fs
      | _ \<Rightarrow> {})"

text \<open>The \<^verbatim>\<open>data\<close> of the record is a dict without the field \<^verbatim>\<open>EOSLogURL\<close>.\<close>

definition lacks_url :: "json \<Rightarrow> bool" where
  "lacks_url item =
     (case subscript item ''data'' of
        Inr (JDict dat) \<Rightarrow> dict_lookup (JStr ''EOSLogURL'') dat = None
      | _ \<Rightarrow> False)"

section \<open>Basic facts\<close>

lemma py_eq_refl [simp]: "py_eq a a"
  by (simp add: py_eq_def)

lemma py_eq_sym: "py_eq a b \<Longrightarrow> py_eq b a"
  by (simp add: py_eq_def)

lemma py_eq_trans: "py_eq a b \<Longrightarrow> py_eq b c \<Longrightarrow> py_eq a c"
  by (simp add: py_eq_def)

lemma py_eq_JStr [simp]:
  "py_eq (JStr s) x \<longleftrightarrow> x = JStr s"
  "py_eq x (JStr s) \<longleftrightarrow> x = JStr s"
  by (cases x; auto simp: py_eq_def)+

lemma dict_lookup_store:
  "dict_lookup k' (dict_store k v d) = (if py_eq k k' then Some v else dict_lookup k' d)"
  by (induction d) (auto simp: py_eq_def)

lemma and_then_Inr [simp]: "and_then (Inr x) f = f x"
  by (simp add: and_then_def)

lemma and_then_Inl [simp]: "and_then (Inl e) f = Inl e"
  by (simp add: and_then_def)

lemma and_then_eq_Inr:
  "and_then m f = Inr y \<longleftrightarrow> (\<exists>x. m = Inr x \<and> f x = Inr y)"
  by (cases m) auto

lemma subscript_JDict:
  "subscript (JDict d) k =
     (case dict_lookup (JStr k) d of Some v \<Rightarrow> Inr v | None \<Rightarrow> Inl (KeyError (JStr k)))"
  by (simp add: subscript_def)

lemma store_item_JDict:
  "store_item (JDict d) k v = Inr (JDict (dict_store (JStr k) v d))"
  by (simp add: store_item_def)

lemma get_method_JDict:
  "get_method (JDict d) k dflt =
     Inr (case dict_lookup (JStr k) d of Some v \<Rightarrow> v | None \<Rightarrow> dflt)"
  by (simp add: get_method_def)

lemma subscript_InrD:
  "subscript x k = Inr v \<Longrightarrow> \<exists>d. x = JDict d \<and> dict_lookup (JStr k) d = Some v"
  by (cases x) (auto simp: subscript_def split: option.splits)

lemma item_url_JDict:
  "subscript src ''data'' = Inr (JDict dat) \<Longrightarrow>
   item_url src =
     Inr (case dict_lookup (JStr ''EOSLogURL'') dat of Some v \<Rightarrow> v | None \<Rightarrow> JNull)"
  by (simp add: item_url_def get_method_JDict)

lemma item_url_store_data:
  assumes "subscript src ''data'' = Inr old"
  shows "and_then (store_item src ''data'' (JDict dat')) item_url
           = Inr (case dict_lookup (JStr ''EOSLogURL'') dat' of Some v \<Rightarrow> v | None \<Rightarrow> JNull)"
proof -
  from subscript_InrD [OF assms] obtain d where "src = JDict d" by blast
  then show ?thesis
    by (simp add: store_item_def item_url_def subscript_def get_method_def dict_lookup_store)
qed

section \<open>Facts about key derivation\<close>

subsection \<open>HTC records\<close>

text \<open>
  Claim C2, as amended. \<^verbatim>\<open>add_log_htc\<close> cuts \<^verbatim>\<open>Args\<close> at every single space character
  (\<^verbatim>\<open>split(" ")\<close>), so the pieces can be empty and no other whitespace separates them.
  For an entry whose \<^verbatim>\<open>data\<close> carries the strings \<^verbatim>\<open>WMAgent_SubTaskName\<close>, \<^verbatim>\<open>ScheddName\<close> and
  \<^verbatim>\<open>Args\<close>, where \<^verbatim>\<open>Args\<close> cut at its spaces has at least three pieces, the derivation
  succeeds and the key the merger reads from the returned record is the URL prefix, the sub
  task name, \<^verbatim>\<open>/\<close>, the schedd name, \<^verbatim>\<open>-\<close>, the second piece, \<^verbatim>\<open>-\<close>, the third piece and
  \<^verbatim>\<open>-log.tar.gz\<close>.
\<close>

theorem htc_entry_key:
  assumes src: "subscript entry ''_source'' = Inr src"
    and dat: "subscript src ''data'' = Inr (JDict dat)"
    and args: "dict_lookup (JStr ''Args'') dat = Some (JStr a)"
    and toks: "split_on CHR '' '' a = a0 # a1 # a2 # more"
    and task: "dict_lookup (JStr ''WMAgent_SubTaskName'') dat = Some (JStr t)"
    and sched: "dict_lookup (JStr ''ScheddName'') dat = Some (JStr sn)"
  shows "and_then (htc_entry entry) item_url
           = Inr (JStr (url_prefix @ t @ ''/'' @ sn @ ''-'' @ a1 @ ''-'' @ a2 @ ''-log.tar.gz''))"
proof -
  let ?u = "JStr (url_prefix @ t @ ''/'' @ sn @ ''-'' @ a1 @ ''-'' @ a2 @ ''-log.tar.gz'')"
  have "htc_entry entry = store_item src ''data'' (JDict (dict_store (JStr ''EOSLogURL'') ?u dat))"
    using src dat args toks task sched
    by (simp add: htc_entry_def subscript_JDict split_method_def str_add_def list_item_def
        store_item_JDict)
  then show ?thesis
    using item_url_store_data [OF dat] by (simp add: dict_lookup_store)
qed

text \<open>
  The end-to-end example of the specification: \<^verbatim>\<open>WMAgent_SubTaskName="/Task1"\<close>,
  \<^verbatim>\<open>ScheddName="sched1"\<close>, \<^verbatim>\<open>Args="x a1 a2 x"\<close>.
\<close>

theorem htc_entry_key_witness:
  "and_then (htc_entry (hit (htc_fields ''x a1 a2 x''))) item_url
     = Inr (JStr ''https://eoscmsweb.cern.ch/eos/cms/store/logs/prod/recent/PRODUCTION/Task1/sched1-a1-a2-log.tar.gz'')"
  using htc_entry_key [of "hit (htc_fields ''x a1 a2 x'')"
      "JDict [(JStr ''data'', JDict (htc_fields ''x a1 a2 x''))]" "htc_fields ''x a1 a2 x''"
      "''x a1 a2 x''" "''x''" "''a1''" "''a2''" "[''x'']" "''/Task1''" "''sched1''"]
  by (simp add: hit_def htc_fields_def subscript_JDict url_prefix_def)

text \<open>
  Claim C2 as it is written fails. \<^verbatim>\<open>"x  a1 a2"\<close> (two spaces after \<^verbatim>\<open>x\<close>) is a
  whitespace-delimited string with the three tokens \<^verbatim>\<open>x\<close>, \<^verbatim>\<open>a1\<close>, \<^verbatim>\<open>a2\<close>, and the key
  written is \<^verbatim>\<open>.../Task1/sched1--a1-log.tar.gz\<close>, not \<^verbatim>\<open>.../Task1/sched1-a1-a2-log.tar.gz\<close>.
  With tabs between the same three tokens no key is written: \<^verbatim>\<open>args[1]\<close> raises
  \<^verbatim>\<open>IndexError\<close>.
\<close>

theorem htc_whitespace_counterexample:
  "ws_tokens ''x  a1 a2'' = [''x'', ''a1'', ''a2'']
   \<and> and_then (htc_entry (hit (htc_fields ''x  a1 a2''))) item_url
        = Inr (JStr (url_prefix @ ''/Task1/sched1--a1-log.tar.gz''))
   \<and> and_then (htc_entry (hit (htc_fields ''x  a1 a2''))) item_url
        \<noteq> Inr (JStr (url_prefix @ ''/Task1/sched1-a1-a2-log.tar.gz''))
   \<and> ws_tokens [CHR ''x'', CHR 0x09, CHR ''a'', CHR ''1'', CHR 0x09, CHR ''a'', CHR ''2'']
        = [''x'', ''a1'', ''a2'']
   \<and> htc_entry (hit (htc_fields
          [CHR ''x'', CHR 0x09, CHR ''a'', CHR ''1'', CHR 0x09, CHR ''a'', CHR ''2'']))
        = Inl IndexError"
  by (simp add: ws_tokens_def is_whitespace_def hit_def htc_fields_def htc_entry_def
      subscript_JDict split_method_def str_add_def list_item_def store_item_JDict
      item_url_def get_method_JDict url_prefix_def)

subsection \<open>WMA records\<close>


lemma get_url_empty:
  "dict_lookup (JStr ''EOSLogURL'') dat = None \<or>
   dict_lookup (JStr ''EOSLogURL'') dat = Some (JStr '''') \<Longrightarrow>
   get_method (JDict dat) ''EOSLogURL'' (JStr '''') = Inr (JStr '''')"
  by (auto simp: get_method_JDict)





subsection \<open>Missing fields\<close>

lemma add_log_htc_abort:
  "add_log_htc pre = Inr rs \<Longrightarrow> htc_entry entry = Inl err \<Longrightarrow>
   add_log_htc (pre @ entry # post) = Inl err"
  by (induction pre arbitrary: rs) (auto simp: and_then_def split: sum.splits)

lemma add_log_wma_abort:
  "add_log_wma pre = Inr rs \<Longrightarrow> wma_entry entry = Inl err \<Longrightarrow>
   add_log_wma (pre @ entry # post) = Inl err"
  by (induction pre arbitrary: rs) (auto simp: and_then_def split: sum.splits)

lemma htc_entry_missing:
  assumes src: "subscript entry ''_source'' = Inr src"
    and dat: "subscript src ''data'' = Inr (JDict dat)"
  shows "dict_lookup (JStr ''Args'') dat = None \<Longrightarrow>
         htc_entry entry = Inl (KeyError (JStr ''Args''))"
    and "dict_lookup (JStr ''Args'') dat = Some (JStr a) \<Longrightarrow>
         dict_lookup (JStr ''WMAgent_SubTaskName'') dat = None \<Longrightarrow>
         htc_entry entry = Inl (KeyError (JStr ''WMAgent_SubTaskName''))"
    and "dict_lookup (JStr ''Args'') dat = Some (JStr a) \<Longrightarrow>
         dict_lookup (JStr ''WMAgent_SubTaskName'') dat = Some (JStr t) \<Longrightarrow>
         dict_lookup (JStr ''ScheddName'') dat = None \<Longrightarrow>
         htc_entry entry = Inl (KeyError (JStr ''ScheddName''))"
  using src dat
  by (simp_all add: htc_entry_def subscript_JDict split_method_def str_add_def)

lemma wma_entry_missing:
  assumes src: "subscript entry ''_source'' = Inr src"
    and dat: "subscript src ''data'' = Inr (JDict dat)"
    and cur: "dict_lookup (JStr ''EOSLogURL'') dat = None \<or>
              dict_lookup (JStr ''EOSLogURL'') dat = Some (JStr '''')"
  shows "dict_lookup (JStr ''task'') dat = None \<Longrightarrow>
         wma_entry entry = Inl (KeyError (JStr ''task''))"
    and "dict_lookup (JStr ''task'') dat = Some (JStr t) \<Longrightarrow>
         dict_lookup (JStr ''meta_data'') dat = None \<Longrightarrow>
         wma_entry entry = Inl (KeyError (JStr ''meta_data''))"
    and "dict_lookup (JStr ''task'') dat = Some (JStr t) \<Longrightarrow>
         dict_lookup (JStr ''meta_data'') dat = Some (JDict md) \<Longrightarrow>
         dict_lookup (JStr ''host'') md = None \<Longrightarrow>
         wma_entry entry = Inl (KeyError (JStr ''host''))"
    and "dict_lookup (JStr ''task'') dat = Some (JStr t) \<Longrightarrow>
         dict_lookup (JStr ''meta_data'') dat = Some (JDict md) \<Longrightarrow>
         dict_lookup (JStr ''host'') md = Some (JStr h) \<Longrightarrow>
         dict_lookup (JStr ''fwjr_id'') md = None \<Longrightarrow>
         wma_entry entry = Inl (KeyError (JStr ''fwjr_id''))"
  using src dat get_url_empty [OF cur]
  by (simp_all add: wma_entry_def subscript_JDict str_add_def)

text \<open>
  Claim C8, as amended. The code has no error type of its own: a missing field is the
  \<^verbatim>\<open>KeyError\<close> of the dict lookup, and it carries the name of the field and nothing else.
  The fields are looked up in the order \<^verbatim>\<open>Args\<close>, \<^verbatim>\<open>WMAgent_SubTaskName\<close>, \<^verbatim>\<open>ScheddName\<close>
  for an HTC record and \<^verbatim>\<open>task\<close>, \<^verbatim>\<open>meta_data\<close>, \<^verbatim>\<open>host\<close>, \<^verbatim>\<open>fwjr_id\<close> for a WMA record
  whose \<^verbatim>\<open>EOSLogURL\<close> is absent or the empty string; the first one missing (those before it
  being strings, \<^verbatim>\<open>meta_data\<close> a dict) is the one reported. The exception is not caught:
  whatever the entries before (which succeeded) and after it, the call for the whole batch
  returns no list.
\<close>

theorem missing_field_key_error:
  assumes src: "subscript entry ''_source'' = Inr src"
    and dat: "subscript src ''data'' = Inr (JDict dat)"
  shows "(add_log_htc pre = Inr rs \<longrightarrow>
            (dict_lookup (JStr ''Args'') dat = None \<longrightarrow>
               add_log_htc (pre @ entry # post) = Inl (KeyError (JStr ''Args'')))
          \<and> (dict_lookup (JStr ''Args'') dat = Some (JStr a)
             \<and> dict_lookup (JStr ''WMAgent_SubTaskName'') dat = None \<longrightarrow>
               add_log_htc (pre @ entry # post) = Inl (KeyError (JStr ''WMAgent_SubTaskName'')))
          \<and> (dict_lookup (JStr ''Args'') dat = Some (JStr a)
             \<and> dict_lookup (JStr ''WMAgent_SubTaskName'') dat = Some (JStr t)
             \<and> dict_lookup (JStr ''ScheddName'') dat = None \<longrightarrow>
               add_log_htc (pre @ entry # post) = Inl (KeyError (JStr ''ScheddName''))))
       \<and> (add_log_wma pre' = Inr rs'
          \<and> (dict_lookup (JStr ''EOSLogURL'') dat = None \<or>
             dict_lookup (JStr ''EOSLogURL'') dat = Some (JStr '''')) \<longrightarrow>
            (dict_lookup (JStr ''task'') dat = None \<longrightarrow>
               add_log_wma (pre' @ entry # post') = Inl (KeyError (JStr ''task'')))
          \<and> (dict_lookup (JStr ''task'') dat = Some (JStr t')
             \<and> dict_lookup (JStr ''meta_data'') dat = None \<longrightarrow>
               add_log_wma (pre' @ entry # post') = Inl (KeyError (JStr ''meta_data'')))
          \<and> (dict_lookup (JStr ''task'') dat = Some (JStr t')
             \<and> dict_lookup (JStr ''meta_data'') dat = Some (JDict md)
             \<and> dict_lookup (JStr ''host'') md = None \<longrightarrow>
               add_log_wma (pre' @ entry # post') = Inl (KeyError (JStr ''host'')))
          \<and> (dict_lookup (JStr ''task'') dat = Some (JStr t')
             \<and> dict_lookup (JStr ''meta_data'') dat = Some (JDict md)
             \<and> dict_lookup (JStr ''host'') md = Some (JStr h)
             \<and> dict_lookup (JStr ''fwjr_id'') md = None \<longrightarrow>
               add_log_wma (pre' @ entry # post') = Inl (KeyError (JStr ''fwjr_id''))))"
proof -
  have htc: "add_log_htc (pre @ entry # post) = Inl err"
    if "add_log_htc pre = Inr rs" "htc_entry entry = Inl err" for err
    using that by (rule add_log_htc_abort)
  have wma: "add_log_wma (pre' @ entry # post') = Inl err"
    if "add_log_wma pre' = Inr rs'" "wma_entry entry = Inl err" for err
    using that by (rule add_log_wma_abort)
  show ?thesis
    using htc wma htc_entry_missing [OF src dat] wma_entry_missing [OF src dat]
    by blast
qed

text \<open>
  Each of the seven cases at a concrete batch; in the first and the fourth the entry with
  the missing field stands between entries that are complete.
\<close>

theorem missing_field_key_error_witness:
  "add_log_htc [hit (htc_fields ''x a1 a2 x''), hit [], hit []]
     = Inl (KeyError (JStr ''Args''))
   \<and> add_log_htc [hit [(JStr ''Args'', JStr ''x a1 a2'')]]
     = Inl (KeyError (JStr ''WMAgent_SubTaskName''))
   \<and> add_log_htc [hit [(JStr ''Args'', JStr ''x a1 a2''),
                        (JStr ''WMAgent_SubTaskName'', JStr ''/Task1'')]]
     = Inl (KeyError (JStr ''ScheddName''))
   \<and> add_log_wma [hit wma_fields, hit [], hit wma_fields]
     = Inl (KeyError (JStr ''task''))
   \<and> add_log_wma [hit [(JStr ''task'', JStr ''/Task1'')]]
     = Inl (KeyError (JStr ''meta_data''))
   \<and> add_log_wma [hit [(JStr ''task'', JStr ''/Task1''), (JStr ''meta_data'', JDict [])]]
     = Inl (KeyError (JStr ''host''))
   \<and> add_log_wma [hit [(JStr ''task'', JStr ''/Task1''),
                        (JStr ''meta_data'', JDict [(JStr ''host'', JStr ''sched1'')])]]
     = Inl (KeyError (JStr ''fwjr_id''))"
proof -
  have pre_htc: "add_log_htc [hit (htc_fields ''x a1 a2 x'')]
      = Inr [JDict [(JStr ''data'', JDict (htc_fields ''x a1 a2 x'' @
           [(JStr ''EOSLogURL'', JStr (url_prefix @ ''/Task1/sched1-a1-a2-log.tar.gz''))]))]]"
    by (simp add: hit_def htc_fields_def htc_entry_def subscript_JDict split_method_def
        str_add_def list_item_def store_item_JDict)
  have pre_wma: "add_log_wma [hit wma_fields]
      = Inr [JDict [(JStr ''data'', JDict (wma_fields @
           [(JStr ''EOSLogURL'', JStr (url_prefix @ ''/Task1/sched1-a1-a2-log.tar.gz''))]))]]"
    by (simp add: hit_def wma_fields_def wma_entry_def subscript_JDict get_method_JDict
        str_add_def store_item_JDict)
  have nil: "add_log_htc [] = Inr []" "add_log_wma [] = Inr []" by simp_all
  have s: "subscript (hit d) ''_source'' = Inr (JDict [(JStr ''data'', JDict d)])"
          "subscript (JDict [(JStr ''data'', JDict d)]) ''data'' = Inr (JDict d)" for d
    by (simp_all add: hit_def subscript_JDict)
  note t = missing_field_key_error [OF s]
  show ?thesis
    using t [where dat = "[]" and pre = "[hit (htc_fields ''x a1 a2 x'')]" and post = "[hit []]"
             and pre' = "[]" and post' = "[]"]
          t [where dat = "[(JStr ''Args'', JStr ''x a1 a2'')]" and pre = "[]" and post = "[]"
             and pre' = "[]" and post' = "[]" and a = "''x a1 a2''"]
          t [where dat = "[(JStr ''Args'', JStr ''x a1 a2''),
                           (JStr ''WMAgent_SubTaskName'', JStr ''/Task1'')]"
             and pre = "[]" and post = "[]" and pre' = "[]" and post' = "[]"
             and a = "''x a1 a2''" and t = "''/Task1''"]
          t [where dat = "[]" and pre' = "[hit wma_fields]" and post' = "[hit wma_fields]"
             and pre = "[]" and post = "[]"]
          t [where dat = "[(JStr ''task'', JStr ''/Task1'')]" and pre = "[]" and post = "[]"
             and pre' = "[]" and post' = "[]" and t' = "''/Task1''"]
          t [where dat = "[(JStr ''task'', JStr ''/Task1''), (JStr ''meta_data'', JDict [])]"
             and pre = "[]" and post = "[]" and pre' = "[]" and post' = "[]"
             and t' = "''/Task1''" and md = "[]"]
          t [where dat = "[(JStr ''task'', JStr ''/Task1''),
                           (JStr ''meta_data'', JDict [(JStr ''host'', JStr ''sched1'')])]"
             and pre = "[]" and post = "[]" and pre' = "[]" and post' = "[]"
             and t' = "''/Task1''" and md = "[(JStr ''host'', JStr ''sched1'')]"
             and h = "''sched1''"]
          pre_htc pre_wma nil
    by simp
qed

text \<open>
  Claim C8 as it is written fails: the error does not identify the record or the origin.
  Two different HTC records without \<^verbatim>\<open>Args\<close> give the same error value, and an entry
  without \<^verbatim>\<open>data\<close> gives the same error value from both origins.
\<close>

theorem missing_field_error_counterexample:
  "hit [(JStr ''ScheddName'', JStr ''a'')] \<noteq> hit [(JStr ''ScheddName'', JStr ''b'')]
   \<and> add_log_htc [hit [(JStr ''ScheddName'', JStr ''a'')]] = Inl (KeyError (JStr ''Args''))
   \<and> add_log_htc [hit [(JStr ''ScheddName'', JStr ''b'')]] = Inl (KeyError (JStr ''Args''))
   \<and> add_log_htc [JDict [(JStr ''_source'', JDict [])]] = Inl (KeyError (JStr ''data''))
   \<and> add_log_wma [JDict [(JStr ''_source'', JDict [])]] = Inl (KeyError (JStr ''data''))"
  by (simp add: hit_def htc_entry_def wma_entry_def subscript_JDict)


section \<open>The grouping is the one the specification describes\<close>

lemma first_seen_hkey_set: "hkey ` set (first_seen ks) = hkey ` set ks"
proof (induction ks)
  case Nil
  then show ?case by simp
next
  case (Cons k ks)
  have "hkey ` {k' \<in> set (first_seen ks). hkey k \<noteq> hkey k'}
          = hkey ` set (first_seen ks) - {hkey k}"
    by auto
  then show ?case using Cons.IH by (auto simp: py_eq_def)
qed

lemma first_seen_subset: "set (first_seen ks) \<subseteq> set ks"
  by (induction ks) auto

lemma first_seen_distinct: "distinct (map hkey (first_seen ks))"
proof (induction ks)
  case Nil
  then show ?case by simp
next
  case (Cons k ks)
  have "hkey k \<notin> hkey ` set (filter (\<lambda>k'. \<not> py_eq k k') (first_seen ks))"
    by (auto simp: py_eq_def)
  moreover have "distinct (map hkey (filter (\<lambda>k'. \<not> py_eq k k') (first_seen ks)))"
    using Cons.IH by (simp add: distinct_map_filter)
  ultimately show ?case by simp
qed

lemma first_seen_snoc:
  "first_seen (ks @ [k]) =
     (if \<exists>k' \<in> set ks. py_eq k' k then first_seen ks else first_seen ks @ [k])"
proof (induction ks)
  case Nil
  then show ?case by simp
next
  case (Cons x ks)
  then show ?case by (auto simp: py_eq_def)
qed

lemma groups_append_map:
  assumes "distinct (map hkey ks)"
  shows "groups_append u i (map (\<lambda>k. (k, f k)) ks) =
           (if \<exists>k \<in> set ks. py_eq k u
            then map (\<lambda>k. (k, if py_eq k u then f k @ [i] else f k)) ks
            else map (\<lambda>k. (k, f k)) ks @ [(u, [i])])"
  using assms
proof (induction ks)
  case Nil
  then show ?case by simp
next
  case (Cons k ks)
  show ?case
  proof (cases "py_eq k u")
    case True
    have "hkey k \<notin> hkey ` set ks" using Cons.prems by simp
    then have "\<forall>k' \<in> set ks. \<not> py_eq k' u"
      using True by (metis py_eq_def image_eqI)
    then show ?thesis using True by simp
  next
    case False
    then show ?thesis using Cons by simp
  qed
qed

lemma members_snoc:
  "members k (xs @ [i]) = (if py_eq k (url_of i) then members k xs @ [i] else members k xs)"
  by (simp add: members_def)

lemma members_empty:
  "\<forall>x \<in> set xs. \<not> py_eq k (url_of x) \<Longrightarrow> members k xs = []"
  by (simp add: members_def)

lemma spec_groups_snoc:
  "spec_groups (xs @ [i]) = groups_append (url_of i) i (spec_groups xs)"
proof -
  let ?ks = "first_seen (map url_of xs)"
  let ?u = "url_of i"
  have d: "distinct (map hkey ?ks)" by (rule first_seen_distinct)
  have cover: "(\<exists>k \<in> set ?ks. py_eq k ?u) \<longleftrightarrow> (\<exists>k' \<in> set (map url_of xs). py_eq k' ?u)"
    using first_seen_hkey_set [of "map url_of xs"] unfolding py_eq_def
    by (metis (no_types, lifting) image_iff)
  show ?thesis
  proof (cases "\<exists>k \<in> set ?ks. py_eq k ?u")
    case True
    have "spec_groups (xs @ [i]) = map (\<lambda>k. (k, members k (xs @ [i]))) ?ks"
      using True cover by (simp add: spec_groups_def first_seen_snoc)
    also have "\<dots> = map (\<lambda>k. (k, if py_eq k ?u then members k xs @ [i] else members k xs)) ?ks"
      by (simp add: members_snoc)
    also have "\<dots> = groups_append ?u i (spec_groups xs)"
      using True groups_append_map [OF d, of ?u i "\<lambda>k. members k xs"]
      by (simp add: spec_groups_def)
    finally show ?thesis .
  next
    case False
    then have no: "\<forall>x \<in> set xs. \<not> py_eq (url_of x) ?u" using cover by simp
    then have e: "members ?u xs = []"
      by (intro members_empty) (auto simp: py_eq_def)
    have "\<forall>k \<in> set ?ks. \<not> py_eq k ?u" using False by simp
    then have m: "map (\<lambda>k. (k, members k (xs @ [i]))) ?ks = map (\<lambda>k. (k, members k xs)) ?ks"
      by (simp add: members_snoc)
    have "spec_groups (xs @ [i]) = map (\<lambda>k. (k, members k (xs @ [i]))) ?ks @ [(?u, [i])]"
      using False cover e by (simp add: spec_groups_def first_seen_snoc members_snoc)
    also have "\<dots> = groups_append ?u i (spec_groups xs)"
      using False groups_append_map [OF d, of ?u i "\<lambda>k. members k xs"] m
      by (simp add: spec_groups_def)
    finally show ?thesis .
  qed
qed

lemma group_loop_foldl:
  "group_loop gs items = Inr gs' \<Longrightarrow>
   (\<forall>i \<in> set items. \<exists>u. item_url i = Inr u \<and> hashable u)
   \<and> gs' = foldl (\<lambda>acc i. groups_append (url_of i) i acc) gs items"
proof (induction items arbitrary: gs)
  case Nil
  then show ?case by simp
next
  case (Cons i items)
  from Cons.prems obtain u where u: "item_url i = Inr u" "hashable u"
    and rest: "group_loop (groups_append u i gs) items = Inr gs'"
    by (auto simp: and_then_eq_Inr split: if_splits)
  from Cons.IH [OF rest] u show ?case by (simp add: url_of_def)
qed

lemma foldl_groups_spec:
  "foldl (\<lambda>acc i. groups_append (url_of i) i acc) [] items = spec_groups items"
proof (induction items rule: rev_induct)
  case Nil
  then show ?case by (simp add: spec_groups_def)
next
  case (snoc x xs)
  then show ?case by (simp add: spec_groups_snoc)
qed

lemma group_by_url_spec:
  "group_by_url items = Inr gs \<Longrightarrow> gs = spec_groups items"
  using group_loop_foldl [of "[]" items gs] by (simp add: group_by_url_def foldl_groups_spec)

lemma group_by_url_total:
  "(\<forall>i \<in> set items. \<exists>u. item_url i = Inr u \<and> hashable u) \<Longrightarrow> \<exists>gs. group_loop gs0 items = Inr gs"
  by (induction items arbitrary: gs0) auto


section \<open>The two output lists\<close>

lemma list_item_single:
  "list_item g 0 = Inr g0 \<Longrightarrow> \<not> 1 < length g \<Longrightarrow> g = [g0]"
  by (cases g) (auto simp: list_item_def)

lemma process_groups_char:
  "process_groups ord gs m s = Inr (m', s') \<Longrightarrow>
   \<exists>ms. m' = m @ ms
      \<and> map Inr ms = map (\<lambda>g. merge_group ord (snd g)) (filter (\<lambda>g. 1 < length (snd g)) gs)
      \<and> s' = s @ concat (map snd (filter (\<lambda>g. \<not> 1 < length (snd g)) gs))"
proof (induction gs arbitrary: m s)
  case Nil
  then show ?case by simp
next
  case (Cons kg gs)
  obtain k g where kg: "kg = (k, g)" by (cases kg)
  show ?case
  proof (cases "1 < length g")
    case True
    from Cons.prems kg True obtain md where md: "merge_group ord g = Inr md"
      and rest: "process_groups ord gs (m @ [md]) s = Inr (m', s')"
      by (auto simp: and_then_eq_Inr)
    from Cons.IH [OF rest] obtain ms where
      "m' = (m @ [md]) @ ms"
      "map Inr ms = map (\<lambda>g. merge_group ord (snd g)) (filter (\<lambda>g. 1 < length (snd g)) gs)"
      "s' = s @ concat (map snd (filter (\<lambda>g. \<not> 1 < length (snd g)) gs))"
      by blast
    then show ?thesis using kg True md by (intro exI [of _ "md # ms"]) simp
  next
    case False
    from Cons.prems kg False obtain g0 where g0: "list_item g 0 = Inr g0"
      and rest: "process_groups ord gs m (s @ [g0]) = Inr (m', s')"
      by (auto simp: and_then_eq_Inr)
    have g: "g = [g0]" using g0 False by (rule list_item_single)
    from Cons.IH [OF rest] obtain ms where
      "m' = m @ ms"
      "map Inr ms = map (\<lambda>g. merge_group ord (snd g)) (filter (\<lambda>g. 1 < length (snd g)) gs)"
      "s' = (s @ [g0]) @ concat (map snd (filter (\<lambda>g. \<not> 1 < length (snd g)) gs))"
      by blast
    then show ?thesis using kg False g by (intro exI [of _ ms]) simp
  qed
qed

lemma members_first_seen_nonempty:
  assumes "k \<in> set (first_seen (map url_of items))"
  shows "members k items \<noteq> []"
proof -
  from assms first_seen_subset obtain x where "x \<in> set items" "url_of x = k" by fastforce
  then have "x \<in> set (members k items)" by (simp add: members_def)
  then show ?thesis by auto
qed

lemma small_group_iff:
  "k \<in> set (first_seen (map url_of items)) \<Longrightarrow>
   \<not> 1 < length (members k items) \<longleftrightarrow> length (members k items) = 1"
  using members_first_seen_nonempty [of k items]
  by (cases "members k items") auto

lemma merge_dicts_by_url_char:
  assumes "merge_dicts_by_url ord items = Inr (merged, singles)"
  shows "map Inr merged =
           map (\<lambda>k. merge_group ord (members k items))
             (filter (\<lambda>k. 1 < length (members k items)) (first_seen (map url_of items)))"
    and "singles =
           concat (map (\<lambda>k. members k items)
             (filter (\<lambda>k. length (members k items) = 1) (first_seen (map url_of items))))"
proof -
  from assms obtain gs where gs: "group_by_url items = Inr gs"
    and pg: "process_groups ord gs [] [] = Inr (merged, singles)"
    by (auto simp: merge_dicts_by_url_def and_then_eq_Inr)
  have sg: "gs = spec_groups items" using gs by (rule group_by_url_spec)
  from process_groups_char [OF pg] have
    m: "map Inr merged = map (\<lambda>g. merge_group ord (snd g)) (filter (\<lambda>g. 1 < length (snd g)) gs)"
    and s: "singles = concat (map snd (filter (\<lambda>g. \<not> 1 < length (snd g)) gs))"
    by auto
  show "map Inr merged =
           map (\<lambda>k. merge_group ord (members k items))
             (filter (\<lambda>k. 1 < length (members k items)) (first_seen (map url_of items)))"
    using m by (simp add: sg spec_groups_def filter_map comp_def)
  have "filter (\<lambda>k. \<not> 1 < length (members k items)) (first_seen (map url_of items))
        = filter (\<lambda>k. length (members k items) = 1) (first_seen (map url_of items))"
    using small_group_iff [of _ items] by (intro filter_cong) blast+
  then show "singles =
           concat (map (\<lambda>k. members k items)
             (filter (\<lambda>k. length (members k items) = 1) (first_seen (map url_of items))))"
    using s by (simp add: sg spec_groups_def filter_map comp_def)
qed


lemma members_py_eq: "py_eq k k' \<Longrightarrow> members k items = members k' items"
  by (simp add: members_def py_eq_def)


lemma batch5_merge:
  "merge_dicts_by_url rev batch5 =
     Inr ([JDict [(JStr ''data'', JDict [(JStr ''EOSLogURL'', JStr ''u''), (JStr ''n'', JInt 3)])],
           JDict [(JStr ''data'', JDict [(JStr ''EOSLogURL'', JStr ''v''), (JStr ''n'', JInt 5)])]],
          [rec_n ''w'' 4])"
  by (simp add: merge_dicts_by_url_def group_by_url_def batch5_def rec_n_def item_url_def
      subscript_JDict get_method_JDict merge_group_def items_method_def list_item_def)

lemma url_of_rec_n: "url_of (rec_n x n) = JStr x"
  by (simp add: url_of_def rec_n_def item_url_def subscript_JDict get_method_JDict)





lemma merge_group_shape:
  "merge_group ord g = Inr m \<Longrightarrow> \<exists>md. m = JDict [(JStr ''data'', JDict md)]"
  by (auto simp: merge_group_def and_then_eq_Inr)

lemma merged_from_group:
  assumes "merge_dicts_by_url ord items = Inr (merged, singles)" and "m \<in> set merged"
  shows "\<exists>k \<in> set (first_seen (map url_of items)).
           1 < length (members k items) \<and> merge_group ord (members k items) = Inr m"
proof -
  have "Inr m \<in> set (map Inr merged :: (py_error + json) list)" using assms(2) by simp
  then show ?thesis
    unfolding merge_dicts_by_url_char(1) [OF assms(1)] by auto
qed

lemma single_from_group:
  assumes "merge_dicts_by_url ord items = Inr (merged, singles)" and "s \<in> set singles"
  shows "s \<in> set items \<and> members (url_of s) items = [s]"
proof -
  from assms(2) obtain k where k: "length (members k items) = 1" "s \<in> set (members k items)"
    unfolding merge_dicts_by_url_char(2) [OF assms(1)] by auto
  then have ms: "members k items = [s]" by (cases "members k items") auto
  from k(2) have "s \<in> set items" "py_eq k (url_of s)" by (simp_all add: members_def)
  then show ?thesis using ms members_py_eq [of k "url_of s" items] by simp
qed

text \<open>
  Claim C10. Every merged record the merger returns is \<^verbatim>\<open>{'data': ...}\<close> and has no other
  top-level field, whatever top-level fields the records of its group had. Every unmatched
  record is one of the input records, as it was passed in, and it is the only input record
  with its key.
\<close>

theorem merged_only_data:
  assumes "merge_dicts_by_url set_order dict_list = Inr (merged_dicts, single_entries)"
  shows "(\<forall>m \<in> set merged_dicts. \<exists>md. m = JDict [(JStr ''data'', JDict md)])
       \<and> (\<forall>s \<in> set single_entries. s \<in> set dict_list \<and> members (url_of s) dict_list = [s])"
  using merged_from_group [OF assms] single_from_group [OF assms] merge_group_shape
  by blast

text \<open>
  In the batch of five, every record has the top-level fields \<^verbatim>\<open>data\<close> and \<^verbatim>\<open>metadata\<close>:
  the two merged records have \<^verbatim>\<open>data\<close> only, the unmatched record of w has both.
\<close>

theorem merged_only_data_witness:
  "merge_dicts_by_url rev batch5 =
     Inr ([JDict [(JStr ''data'', JDict [(JStr ''EOSLogURL'', JStr ''u''), (JStr ''n'', JInt 3)])],
           JDict [(JStr ''data'', JDict [(JStr ''EOSLogURL'', JStr ''v''), (JStr ''n'', JInt 5)])]],
          [JDict [(JStr ''data'', JDict [(JStr ''EOSLogURL'', JStr ''w''), (JStr ''n'', JInt 4)]),
                  (JStr ''metadata'', JStr ''m'')]])
   \<and> JDict [(JStr ''data'', JDict [(JStr ''EOSLogURL'', JStr ''w''), (JStr ''n'', JInt 4)]),
            (JStr ''metadata'', JStr ''m'')] \<in> set batch5
   \<and> members (url_of (rec_n ''w'' 4)) batch5 = [rec_n ''w'' 4]"
  using merged_only_data [OF batch5_merge] batch5_merge
  by (simp add: rec_n_def)


section \<open>The key of a merged record\<close>

lemma dict_lookup_py_eq: "py_eq k k' \<Longrightarrow> dict_lookup k d = dict_lookup k' d"
  by (induction d) (auto simp: py_eq_def)

lemma merge_field_stores:
  "merge_field ord md (key, v) = Inr md' \<Longrightarrow> \<exists>w. md' = dict_store key w md"
  by (auto simp: and_then_eq_Inr Let_def split: option.splits json.splits)

lemma merge_field_other:
  "merge_field ord md (key, v) = Inr md' \<Longrightarrow> \<not> py_eq key k' \<Longrightarrow>
   dict_lookup k' md' = dict_lookup k' md"
  using merge_field_stores [of ord md key v md'] by (auto simp: dict_lookup_store)

lemma merge_items_other:
  "merge_items ord md fs = Inr md' \<Longrightarrow> \<forall>p \<in> set fs. \<not> py_eq (fst p) k' \<Longrightarrow>
   dict_lookup k' md' = dict_lookup k' md"
proof (induction fs arbitrary: md)
  case Nil
  then show ?case by simp
next
  case (Cons p fs)
  obtain key v where p: "p = (key, v)" by (cases p)
  from Cons.prems(1) p obtain md1 where m1: "merge_field ord md (key, v) = Inr md1"
    and rest: "merge_items ord md1 fs = Inr md'"
    by (auto simp: and_then_eq_Inr)
  have "dict_lookup k' md1 = dict_lookup k' md"
    using merge_field_other [OF m1] Cons.prems(2) p by simp
  then show ?case using Cons.IH [OF rest] Cons.prems(2) by simp
qed

lemma merge_field_same:
  assumes "merge_field ord md (key, v) = Inr md'" and "py_eq key k'"
    and "hashable (case dict_lookup k' md of Some w \<Rightarrow> w | None \<Rightarrow> JNull)"
  shows "dict_lookup k' md' = Some v"
proof -
  have l: "dict_lookup key md = dict_lookup k' md" using assms(2) by (rule dict_lookup_py_eq)
  have "md' = dict_store key v md"
    using assms(1,3) unfolding l [symmetric]
    by (auto simp: and_then_eq_Inr Let_def split: option.splits json.splits)
  then show ?thesis using assms(2) by (simp add: dict_lookup_store)
qed

lemma merge_items_lookup:
  assumes "merge_items ord md fs = Inr md'"
    and "distinct (map (\<lambda>p. hkey (fst p)) fs)"
    and "hashable (case dict_lookup k' md of Some w \<Rightarrow> w | None \<Rightarrow> JNull)"
  shows "dict_lookup k' md' =
           (case dict_lookup k' fs of Some v \<Rightarrow> Some v | None \<Rightarrow> dict_lookup k' md)"
  using assms
proof (induction fs arbitrary: md)
  case Nil
  then show ?case by simp
next
  case (Cons p fs)
  obtain key v where p: "p = (key, v)" by (cases p)
  from Cons.prems(1) p obtain md1 where m1: "merge_field ord md (key, v) = Inr md1"
    and rest: "merge_items ord md1 fs = Inr md'"
    by (auto simp: and_then_eq_Inr)
  show ?case
  proof (cases "py_eq key k'")
    case True
    have "dict_lookup k' md1 = Some v"
      using merge_field_same [OF m1 True Cons.prems(3)] .
    moreover have "\<forall>q \<in> set fs. \<not> py_eq (fst q) k'"
      using Cons.prems(2) True p by (auto simp: py_eq_def image_iff)
    ultimately have "dict_lookup k' md' = Some v"
      using merge_items_other [OF rest] by simp
    then show ?thesis using True p by simp
  next
    case False
    have same: "dict_lookup k' md1 = dict_lookup k' md"
      using merge_field_other [OF m1 False] .
    have "dict_lookup k' md' =
           (case dict_lookup k' fs of Some v \<Rightarrow> Some v | None \<Rightarrow> dict_lookup k' md1)"
      using Cons.prems(2,3) by (intro Cons.IH [OF rest]) (simp_all add: same)
    then show ?thesis using False p same by (simp split: option.splits)
  qed
qed


lemma items_method_Inr: "items_method x = Inr fs \<longleftrightarrow> x = JDict fs"
  by (cases x) (simp_all add: items_method_def)

lemma merge_group_loop_Cons_Inr:
  "merge_group_loop ord md (d # ds) = Inr md' \<longleftrightarrow>
     (\<exists>fs md1. subscript d ''data'' = Inr (JDict fs) \<and> merge_items ord md fs = Inr md1
        \<and> merge_group_loop ord md1 ds = Inr md')"
  by (auto simp: and_then_eq_Inr items_method_Inr)

lemma url_of_JDict:
  "subscript item ''data'' = Inr (JDict fs) \<Longrightarrow> url_of item = data_url fs"
  by (simp add: url_of_def item_url_JDict data_url_def)

lemma merge_group_loop_url:
  assumes "merge_group_loop ord md g = Inr md'"
    and "\<forall>d \<in> set g. py_eq k (url_of d) \<and> hashable (url_of d) \<and> wf_data d"
    and "hashable (data_url md)" and "data_url md = JNull \<or> py_eq k (data_url md)"
  shows "if g = [] then md' = md else hashable (data_url md') \<and> py_eq k (data_url md')"
  using assms
proof (induction g arbitrary: md)
  case Nil
  then show ?case by simp
next
  case (Cons d ds)
  from Cons.prems(1) obtain fs md1 where dat: "subscript d ''data'' = Inr (JDict fs)"
    and m1: "merge_items ord md fs = Inr md1"
    and rest: "merge_group_loop ord md1 ds = Inr md'"
    unfolding merge_group_loop_Cons_Inr by blast
  have u: "url_of d = data_url fs" using dat by (rule url_of_JDict)
  have wf: "distinct (map (\<lambda>p. hkey (fst p)) fs)"
    using Cons.prems(2) dat by (simp add: wf_data_def)
  have ku: "py_eq k (data_url fs)" "hashable (data_url fs)"
    using Cons.prems(2) u by simp_all
  have l: "dict_lookup (JStr ''EOSLogURL'') md1 =
             (case dict_lookup (JStr ''EOSLogURL'') fs of
                Some v \<Rightarrow> Some v | None \<Rightarrow> dict_lookup (JStr ''EOSLogURL'') md)"
    using Cons.prems(3) by (intro merge_items_lookup [OF m1 wf]) (simp add: data_url_def)
  have s1: "hashable (data_url md1) \<and> py_eq k (data_url md1)"
  proof (cases "dict_lookup (JStr ''EOSLogURL'') fs")
    case None
    then have "data_url md1 = data_url md" "data_url fs = JNull"
      using l by (simp_all add: data_url_def)
    then show ?thesis using ku Cons.prems(3,4) by auto
  next
    case (Some v)
    then have "data_url md1 = data_url fs" using l by (simp add: data_url_def)
    then show ?thesis using ku by simp
  qed
  show ?case
  proof (cases "ds = []")
    case True
    then show ?thesis using rest s1 by simp
  next
    case False
    have "if ds = [] then md' = md1 else hashable (data_url md') \<and> py_eq k (data_url md')"
      using Cons.prems(2) s1 by (intro Cons.IH [OF rest]) simp_all
    then show ?thesis using False by simp
  qed
qed

lemma merge_group_url:
  assumes "merge_group ord g = Inr m" and "g \<noteq> []"
    and "\<forall>d \<in> set g. py_eq k (url_of d) \<and> hashable (url_of d) \<and> wf_data d"
  shows "py_eq k (url_of m)"
proof -
  from assms(1) obtain md where md: "merge_group_loop ord [] g = Inr md"
    and m: "m = JDict [(JStr ''data'', JDict md)]"
    by (auto simp: merge_group_def and_then_eq_Inr)
  have "if g = [] then md = [] else hashable (data_url md) \<and> py_eq k (data_url md)"
    using assms(3) by (intro merge_group_loop_url [OF md]) (simp_all add: data_url_def)
  moreover have "url_of m = data_url md"
    unfolding m by (rule url_of_JDict) (simp add: subscript_JDict)
  ultimately show ?thesis using assms(2) by simp
qed


section \<open>The groups partition the input\<close>

lemma mset_groups_append:
  "mset (concat (map snd (groups_append u i gs))) = add_mset i (mset (concat (map snd gs)))"
  by (induction gs) auto

lemma mset_spec_groups: "mset (concat (map snd (spec_groups items))) = mset items"
proof (induction items rule: rev_induct)
  case Nil
  then show ?case by (simp add: spec_groups_def)
next
  case (snoc x xs)
  then show ?case by (simp add: spec_groups_snoc mset_groups_append)
qed

lemma spec_groups_keys: "map fst (spec_groups items) = first_seen (map url_of items)"
  by (simp add: spec_groups_def comp_def)

lemma spec_groups_distinct: "distinct (map (\<lambda>g. hkey (fst g)) (spec_groups items))"
  using first_seen_distinct [of "map url_of items"]
  by (simp add: spec_groups_def comp_def)

lemma spec_groups_nonempty: "g \<in> set (spec_groups items) \<Longrightarrow> snd g \<noteq> []"
  using members_first_seen_nonempty by (auto simp: spec_groups_def)

lemma sum_list_filter_split:
  "sum_list (map f xs) = sum_list (map f (filter P xs)) + sum_list (map f (filter (\<lambda>x. \<not> P x) xs))"
  for f :: "'a \<Rightarrow> nat"
  by (induction xs) auto

lemma sum_list_all_one:
  "\<forall>x \<in> set xs. f x = 1 \<Longrightarrow> sum_list (map f xs) = length xs" for f :: "'a \<Rightarrow> nat"
  by (induction xs) auto

lemma length_concat_singletons:
  "\<forall>x \<in> set xs. length x = 1 \<Longrightarrow> length (concat xs) = length xs"
  by (induction xs) auto

lemma group_sizes:
  fixes gs :: "(json \<times> json list) list"
  assumes "gs = spec_groups items"
  shows "sum_list (map (\<lambda>g. length (snd g)) (filter (\<lambda>g. 1 < length (snd g)) gs))
           + length (filter (\<lambda>g. length (snd g) = 1) gs) = length items"
proof -
  have small: "filter (\<lambda>g. \<not> 1 < length (snd g)) gs = filter (\<lambda>g. length (snd g) = 1) gs"
  proof (rule filter_cong [OF refl])
    fix g assume "g \<in> set gs"
    then have "snd g \<noteq> []" using assms spec_groups_nonempty by blast
    then show "(\<not> 1 < length (snd g)) = (length (snd g) = 1)"
      by (cases "snd g") auto
  qed
  have "length items = size (mset (concat (map snd gs)))"
    using mset_spec_groups [of items] assms by simp
  also have "\<dots> = sum_list (map (\<lambda>g. length (snd g)) gs)"
    by (simp add: length_concat comp_def)
  also have "\<dots> = sum_list (map (\<lambda>g. length (snd g)) (filter (\<lambda>g. 1 < length (snd g)) gs))
                 + sum_list (map (\<lambda>g. length (snd g)) (filter (\<lambda>g. \<not> 1 < length (snd g)) gs))"
    by (rule sum_list_filter_split)
  also have "sum_list (map (\<lambda>g. length (snd g)) (filter (\<lambda>g. \<not> 1 < length (snd g)) gs))
               = length (filter (\<lambda>g. length (snd g) = 1) gs)"
    unfolding small by (rule sum_list_all_one) simp
  finally show ?thesis by simp
qed

lemma group_by_url_hashable:
  assumes "group_by_url items = Inr gs" and "d \<in> set items"
  shows "hashable (url_of d)"
  using group_loop_foldl [of "[]" items gs] assms
  by (auto simp: group_by_url_def url_of_def)

text \<open>
  Claim C1. When the merger returns for well-formed records, the groups it built hold every
  input record exactly once (as multisets, the groups together are the input) and have
  pairwise different keys; there is one merged record for each group with more than one
  member and one unmatched record for each group with one member; the sizes of the groups
  with more than one member plus the number of unmatched records is the number of input
  records; and no record is both in the merged and in the unmatched list.
\<close>

theorem merge_partition:
  assumes ok: "merge_dicts_by_url set_order dict_list = Inr (merged_dicts, single_entries)"
    and wf: "\<forall>item \<in> set dict_list. wf_data item"
  shows "\<exists>url_groups. group_by_url dict_list = Inr url_groups
      \<and> mset (concat (map snd url_groups)) = mset dict_list
      \<and> distinct (map (\<lambda>g. hkey (fst g)) url_groups)
      \<and> length merged_dicts = length (filter (\<lambda>g. 1 < length (snd g)) url_groups)
      \<and> length single_entries = length (filter (\<lambda>g. length (snd g) = 1) url_groups)
      \<and> sum_list (map (\<lambda>g. length (snd g)) (filter (\<lambda>g. 1 < length (snd g)) url_groups))
          + length single_entries = length dict_list
      \<and> set merged_dicts \<inter> set single_entries = {}"
proof -
  from ok obtain gs where gs: "group_by_url dict_list = Inr gs"
    by (auto simp: merge_dicts_by_url_def and_then_eq_Inr)
  have sg: "gs = spec_groups dict_list" using gs by (rule group_by_url_spec)
  let ?ks = "first_seen (map url_of dict_list)"
  have lm: "length merged_dicts = length (filter (\<lambda>g. 1 < length (snd g)) gs)"
  proof -
    have "length merged_dicts = length (map Inr merged_dicts :: (py_error + json) list)" by simp
    also have "\<dots> = length (filter (\<lambda>k. 1 < length (members k dict_list)) ?ks)"
      unfolding merge_dicts_by_url_char(1) [OF ok] by simp
    also have "\<dots> = length (filter (\<lambda>g. 1 < length (snd g)) gs)"
      by (simp add: sg spec_groups_def filter_map comp_def)
    finally show ?thesis .
  qed
  have ls: "length single_entries = length (filter (\<lambda>g. length (snd g) = 1) gs)"
  proof -
    have "length single_entries
            = length (map (\<lambda>k. members k dict_list)
                (filter (\<lambda>k. length (members k dict_list) = 1) ?ks))"
      unfolding merge_dicts_by_url_char(2) [OF ok]
      by (rule length_concat_singletons) auto
    also have "\<dots> = length (filter (\<lambda>g. length (snd g) = 1) gs)"
      by (simp add: sg spec_groups_def filter_map comp_def)
    finally show ?thesis .
  qed
  have disj: "set merged_dicts \<inter> set single_entries = {}"
  proof (rule ccontr)
    assume "set merged_dicts \<inter> set single_entries \<noteq> {}"
    then obtain m where mm: "m \<in> set merged_dicts" and ms: "m \<in> set single_entries" by blast
    from merged_from_group [OF ok mm] obtain k where
      big: "1 < length (members k dict_list)"
      and mg: "merge_group set_order (members k dict_list) = Inr m"
      by blast
    have "\<forall>d \<in> set (members k dict_list). py_eq k (url_of d) \<and> hashable (url_of d) \<and> wf_data d"
      using wf group_by_url_hashable [OF gs] by (auto simp: members_def)
    moreover have "members k dict_list \<noteq> []" using big by auto
    ultimately have "py_eq k (url_of m)" using merge_group_url [OF mg] by blast
    then have "members k dict_list = members (url_of m) dict_list" by (rule members_py_eq)
    then show False using single_from_group [OF ok ms] big by simp
  qed
  show ?thesis
    using gs mset_spec_groups [of dict_list] spec_groups_distinct [of dict_list]
      lm ls group_sizes [OF sg] disj
    by (intro exI [of _ gs]) (simp add: sg)
qed


text \<open>
  The batch of five: groups of sizes 2, 2 and 1, two merged records and one unmatched.
\<close>

theorem merge_partition_witness:
  "merge_dicts_by_url rev batch5 =
     Inr ([JDict [(JStr ''data'', JDict [(JStr ''EOSLogURL'', JStr ''u''), (JStr ''n'', JInt 3)])],
           JDict [(JStr ''data'', JDict [(JStr ''EOSLogURL'', JStr ''v''), (JStr ''n'', JInt 5)])]],
          [rec_n ''w'' 4])
   \<and> list_all wf_data batch5
   \<and> group_by_url batch5 =
       Inr [(JStr ''u'', [rec_n ''u'' 1, rec_n ''u'' 3]),
            (JStr ''v'', [rec_n ''v'' 2, rec_n ''v'' 5]),
            (JStr ''w'', [rec_n ''w'' 4])]
   \<and> (2 + 2) + length [rec_n ''w'' 4] = length batch5
   \<and> set [JDict [(JStr ''data'', JDict [(JStr ''EOSLogURL'', JStr ''u''), (JStr ''n'', JInt 3)])],
           JDict [(JStr ''data'', JDict [(JStr ''EOSLogURL'', JStr ''v''), (JStr ''n'', JInt 5)])]]
       \<inter> set [rec_n ''w'' 4] = {}"
proof -
  have wf: "\<forall>item \<in> set batch5. wf_data item"
    by (simp add: batch5_def rec_n_def wf_data_def subscript_JDict)
  have g: "group_by_url batch5 =
       Inr [(JStr ''u'', [rec_n ''u'' 1, rec_n ''u'' 3]),
            (JStr ''v'', [rec_n ''v'' 2, rec_n ''v'' 5]),
            (JStr ''w'', [rec_n ''w'' 4])]"
    by (simp add: group_by_url_def batch5_def item_url_def rec_n_def subscript_JDict
        get_method_JDict)
  show ?thesis
    using merge_partition [OF batch5_merge wf] batch5_merge wf g
    by (simp add: list_all_iff)
qed

section \<open>The fields of a merged record\<close>

lemma dict_store_keys: "hkey ` fst ` set (dict_store k v d) = insert (hkey k) (hkey ` fst ` set d)"
proof (induction d)
  case Nil
  then show ?case by simp
next
  case (Cons p d)
  obtain k' v' where p: "p = (k', v')" by (cases p)
  show ?case
  proof (cases "py_eq k' k")
    case True
    then have "hkey k' = hkey k" by (simp add: py_eq_def)
    then show ?thesis using True p by auto
  next
    case False
    then show ?thesis using Cons.IH p by auto
  qed
qed

lemma merge_field_keys:
  "merge_field ord md (key, v) = Inr md' \<Longrightarrow>
   hkey ` fst ` set md' = insert (hkey key) (hkey ` fst ` set md)"
proof -
  assume "merge_field ord md (key, v) = Inr md'"
  then obtain w where "md' = dict_store key w md" using merge_field_stores by blast
  then show ?thesis by (simp add: dict_store_keys)
qed

lemma merge_items_keys:
  "merge_items ord md fs = Inr md' \<Longrightarrow>
   hkey ` fst ` set md' = hkey ` fst ` set md \<union> hkey ` fst ` set fs"
proof (induction fs arbitrary: md)
  case Nil
  then show ?case by simp
next
  case (Cons p fs)
  obtain key v where p: "p = (key, v)" by (cases p)
  from Cons.prems p obtain md1 where m1: "merge_field ord md (key, v) = Inr md1"
    and rest: "merge_items ord md1 fs = Inr md'"
    by (auto simp: and_then_eq_Inr)
  show ?case using Cons.IH [OF rest] merge_field_keys [OF m1] p by auto
qed

lemma field_set_JDict:
  "subscript d ''data'' = Inr (JDict fs) \<Longrightarrow> field_set d = hkey ` fst ` set fs"
  by (simp add: field_set_def)

lemma merge_group_loop_keys:
  "merge_group_loop ord md g = Inr md' \<Longrightarrow>
   hkey ` fst ` set md' = hkey ` fst ` set md \<union> (\<Union>d \<in> set g. field_set d)"
proof (induction g arbitrary: md)
  case Nil
  then show ?case by simp
next
  case (Cons d ds)
  from Cons.prems obtain fs md1 where dat: "subscript d ''data'' = Inr (JDict fs)"
    and m1: "merge_items ord md fs = Inr md1"
    and rest: "merge_group_loop ord md1 ds = Inr md'"
    unfolding merge_group_loop_Cons_Inr by blast
  show ?case
    using Cons.IH [OF rest] merge_items_keys [OF m1] field_set_JDict [OF dat] by auto
qed

text \<open>
  Claim C4. For every group on which the fold completes, the field names of the merged
  record are exactly the field names of the members of the group taken together. (The
  size of the group plays no role; the merger folds the groups with two members or more.)
\<close>

theorem merged_field_union:
  assumes "merge_group set_order grp = Inr merged_dict"
  shows "field_set merged_dict = (\<Union>d \<in> set grp. field_set d)"
proof -
  from assms obtain md where md: "merge_group_loop set_order [] grp = Inr md"
    and m: "merged_dict = JDict [(JStr ''data'', JDict md)]"
    by (auto simp: merge_group_def and_then_eq_Inr)
  have "field_set merged_dict = hkey ` fst ` set md"
    unfolding m by (rule field_set_JDict) (simp add: subscript_JDict)
  then show ?thesis using merge_group_loop_keys [OF md] by simp
qed

text \<open>
  Two records with the key u, one with the fields \<^verbatim>\<open>a\<close> and \<^verbatim>\<open>f\<close>, the other with \<^verbatim>\<open>b\<close>
  and \<^verbatim>\<open>f\<close>.
\<close>

theorem merged_field_union_witness:
  "merge_group rev [rec_a, rec_b] =
     Inr (JDict [(JStr ''data'',
            JDict [(JStr ''EOSLogURL'', JStr ''u''), (JStr ''a'', JInt 1),
                   (JStr ''f'', JList [JStr ''y'', JStr ''x'']), (JStr ''b'', JInt 2)])])
   \<and> field_set rec_a = {JStr ''EOSLogURL'', JStr ''a'', JStr ''f''}
   \<and> field_set rec_b = {JStr ''b'', JStr ''EOSLogURL'', JStr ''f''}
   \<and> field_set (JDict [(JStr ''data'',
            JDict [(JStr ''EOSLogURL'', JStr ''u''), (JStr ''a'', JInt 1),
                   (JStr ''f'', JList [JStr ''y'', JStr ''x'']), (JStr ''b'', JInt 2)])])
      = {JStr ''EOSLogURL'', JStr ''a'', JStr ''f'', JStr ''b''}"
proof -
  have e: "merge_group rev [rec_a, rec_b] =
     Inr (JDict [(JStr ''data'',
            JDict [(JStr ''EOSLogURL'', JStr ''u''), (JStr ''a'', JInt 1),
                   (JStr ''f'', JList [JStr ''y'', JStr ''x'']), (JStr ''b'', JInt 2)])])"
    by (simp add: merge_group_def rec_a_def rec_b_def subscript_JDict items_method_def
        extend_arg_def list_of_set_def py_set_def set_add_def)
  have f: "field_set rec_a = {JStr ''EOSLogURL'', JStr ''a'', JStr ''f''}"
    "field_set rec_b = {JStr ''b'', JStr ''EOSLogURL'', JStr ''f''}"
    by (simp_all add: field_set_def rec_a_def rec_b_def subscript_JDict)
  show ?thesis
    using merged_field_union [OF e] e f by auto
qed


section \<open>Sequence fields\<close>

lemma set_add_cases:
  "set_add acc x = (if hkey x \<in> hkey ` set acc then acc else acc @ [x])"
proof -
  have "list_ex (\<lambda>y. py_eq y x) acc \<longleftrightarrow> hkey x \<in> hkey ` set acc"
    unfolding list_ex_iff py_eq_def by (metis image_iff)
  then show ?thesis by (simp add: set_add_def)
qed

lemma foldl_set_add_distinct:
  "distinct (map hkey acc) \<Longrightarrow> distinct (map hkey (foldl set_add acc xs))"
  by (induction xs arbitrary: acc) (simp_all add: set_add_cases)

lemma foldl_set_add_subset: "set (foldl set_add acc xs) \<subseteq> set acc \<union> set xs"
proof (induction xs arbitrary: acc)
  case Nil
  then show ?case by simp
next
  case (Cons x xs)
  show ?case using Cons.IH [of "set_add acc x"] by (auto simp: set_add_cases split: if_splits)
qed

lemma foldl_set_add_hkey:
  "hkey ` set (foldl set_add acc xs) = hkey ` set acc \<union> hkey ` set xs"
proof (induction xs arbitrary: acc)
  case Nil
  then show ?case by simp
next
  case (Cons x xs)
  show ?case unfolding foldl_Cons Cons.IH by (auto simp: set_add_cases)
qed

lemma py_set_distinct: "distinct (map hkey (py_set xs))"
  by (simp add: py_set_def foldl_set_add_distinct)

lemma py_set_subset: "set (py_set xs) \<subseteq> set xs"
  using foldl_set_add_subset [of "[]" xs] by (simp add: py_set_def)

lemma py_set_hkey: "hkey ` set (py_set xs) = hkey ` set xs"
  using foldl_set_add_hkey [of "[]" xs] by (simp add: py_set_def)

lemma list_of_set_props:
  assumes "\<forall>ys. mset (set_order ys) = mset ys"
  shows "distinct (map hkey (list_of_set set_order xs))"
    and "set (list_of_set set_order xs) \<subseteq> set xs"
    and "hkey ` set (list_of_set set_order xs) = hkey ` set xs"
proof -
  have m: "mset (set_order (py_set xs)) = mset (py_set xs)" using assms by blast
  then have s: "set (set_order (py_set xs)) = set (py_set xs)" by (rule mset_eq_setD)
  have "mset (map hkey (set_order (py_set xs))) = mset (map hkey (py_set xs))"
    using m by (metis mset_map)
  then show "distinct (map hkey (list_of_set set_order xs))"
    using py_set_distinct [of xs] by (metis list_of_set_def mset_eq_imp_distinct_iff)
  show "set (list_of_set set_order xs) \<subseteq> set xs"
    using s py_set_subset [of xs] by (simp add: list_of_set_def)
  show "hkey ` set (list_of_set set_order xs) = hkey ` set xs"
    using s py_set_hkey [of xs] by (simp add: list_of_set_def)
qed

lemma rec_f_merge:
  "merge_dicts_by_url set_order [rec_f [JStr ''a''], rec_f [JStr ''a'', JStr ''b'']] =
     Inr ([rec_f (set_order [JStr ''a'', JStr ''b''])], [])"
  by (simp add: merge_dicts_by_url_def group_by_url_def rec_f_def item_url_def
      subscript_JDict get_method_JDict merge_group_def items_method_def
      extend_arg_def list_of_set_def py_set_def set_add_def)

lemma sequence_field_parts:
  assumes perm: "\<forall>ys. mset (set_order ys) = mset ys"
    and old: "dict_lookup key md = Some (JList xs)"
  shows "\<exists>zs. merge_field set_order md (key, v) = Inr (dict_store key (JList zs) md)
           \<and> (if list_all is_primitive (xs @ extend_arg v)
              then distinct (map hkey zs) \<and> set zs \<subseteq> set (xs @ extend_arg v)
                   \<and> hkey ` set zs = hkey ` set (xs @ extend_arg v)
              else zs = xs @ extend_arg v)"
    and "extend_arg (JList vs) = vs"
    and "(\<forall>vs. v \<noteq> JList vs) \<longrightarrow> extend_arg v = [v]"
    and "\<exists>zs. merge_dicts_by_url set_order [rec_f [JStr ''a''], rec_f [JStr ''a'', JStr ''b'']]
                = Inr ([rec_f zs], [])
             \<and> set zs = {JStr ''a'', JStr ''b''}"
proof -
  let ?ys = "xs @ extend_arg v"
  let ?zs = "if list_all is_primitive ?ys then list_of_set set_order ?ys else ?ys"
  have "merge_field set_order md (key, v) = Inr (dict_store key (JList ?zs) md)"
    using old by (simp add: Let_def)
  then show "\<exists>zs. merge_field set_order md (key, v) = Inr (dict_store key (JList zs) md)
           \<and> (if list_all is_primitive (xs @ extend_arg v)
              then distinct (map hkey zs) \<and> set zs \<subseteq> set (xs @ extend_arg v)
                   \<and> hkey ` set zs = hkey ` set (xs @ extend_arg v)
              else zs = xs @ extend_arg v)"
    using list_of_set_props [OF perm, of ?ys] by (intro exI [of _ ?zs]) simp
  show "extend_arg (JList vs) = vs" by (simp add: extend_arg_def)
  show "(\<forall>vs. v \<noteq> JList vs) \<longrightarrow> extend_arg v = [v]"
    by (cases v) (simp_all add: extend_arg_def)
  have "mset (set_order [JStr ''a'', JStr ''b'']) = mset [JStr ''a'', JStr ''b'']"
    using perm by blast
  then have "set (set_order [JStr ''a'', JStr ''b'']) = set [JStr ''a'', JStr ''b'']"
    by (rule mset_eq_setD)
  then show "\<exists>zs. merge_dicts_by_url set_order [rec_f [JStr ''a''], rec_f [JStr ''a'', JStr ''b'']]
                = Inr ([rec_f zs], [])
             \<and> set zs = {JStr ''a'', JStr ''b''}"
    using rec_f_merge [of set_order] by (intro exI [of _ "set_order [JStr ''a'', JStr ''b'']"]) simp
qed


text \<open>
  Claim C5. Whatever order \<^verbatim>\<open>list(set(...))\<close> iterates in (\<open>set_order\<close> permutes its
  argument): when the combined value of a field is the list \<open>xs\<close>, the fold stores under the
  same field a list \<open>zs\<close>. The incoming value is appended to \<open>xs\<close>, its elements if it is a
  list and itself otherwise. If some element of the extended list is not a string or a
  number, \<open>zs\<close> is the extended list. If all are, \<open>zs\<close> is deduplicated: no two of its elements
  are equal for Python, each is an element of the extended list, and every element of the
  extended list is equal to one of them. For R1 with \<^verbatim>\<open>f=["a"]\<close> and R2 with
  \<^verbatim>\<open>f=["a","b"]\<close> sharing a key, the merger returns one merged record whose \<^verbatim>\<open>f\<close> has
  exactly the elements \<^verbatim>\<open>"a"\<close> and \<^verbatim>\<open>"b"\<close>.
\<close>

theorem merge_field_sequence:
  assumes perm: "\<forall>ys. mset (set_order ys) = mset ys"
    and old: "dict_lookup key md = Some (JList xs)"
  shows "(\<exists>zs. merge_field set_order md (key, v) = Inr (dict_store key (JList zs) md)
           \<and> (if list_all is_primitive (xs @ extend_arg v)
              then distinct (map hkey zs) \<and> set zs \<subseteq> set (xs @ extend_arg v)
                   \<and> hkey ` set zs = hkey ` set (xs @ extend_arg v)
              else zs = xs @ extend_arg v))
       \<and> extend_arg (JList vs) = vs
       \<and> ((\<forall>vs. v \<noteq> JList vs) \<longrightarrow> extend_arg v = [v])
       \<and> (\<exists>zs. merge_dicts_by_url set_order [rec_f [JStr ''a''], rec_f [JStr ''a'', JStr ''b'']]
                = Inr ([rec_f zs], [])
             \<and> set zs = {JStr ''a'', JStr ''b''})"
  using sequence_field_parts [OF perm old] by blast

text \<open>
  With \<^verbatim>\<open>list(set(...))\<close> iterating in reverse order of insertion: \<^verbatim>\<open>["a"]\<close> extended by
  \<^verbatim>\<open>["a","b"]\<close> becomes \<^verbatim>\<open>["b","a"]\<close>; extended by \<^verbatim>\<open>None\<close> it becomes \<^verbatim>\<open>["a", None]\<close>.
\<close>

theorem merge_field_sequence_witness:
  "merge_field rev [(JStr ''f'', JList [JStr ''a''])] (JStr ''f'', JList [JStr ''a'', JStr ''b''])
     = Inr [(JStr ''f'', JList [JStr ''b'', JStr ''a''])]
   \<and> merge_field rev [(JStr ''f'', JList [JStr ''a''])] (JStr ''f'', JNull)
     = Inr [(JStr ''f'', JList [JStr ''a'', JNull])]
   \<and> merge_dicts_by_url rev [rec_f [JStr ''a''], rec_f [JStr ''a'', JStr ''b'']]
     = Inr ([rec_f [JStr ''b'', JStr ''a'']], [])
   \<and> set [JStr ''b'', JStr ''a''] = {JStr ''a'', JStr ''b''}"
  using merge_field_sequence [of rev "JStr ''f''" "[(JStr ''f'', JList [JStr ''a''])]"
      "[JStr ''a'']" "JList [JStr ''a'', JStr ''b'']"]
    merge_field_sequence [of rev "JStr ''f''" "[(JStr ''f'', JList [JStr ''a''])]"
      "[JStr ''a'']" "JNull"]
    rec_f_merge [of rev]
  by (auto simp: extend_arg_def list_of_set_def py_set_def set_add_def)


section \<open>Values of different kinds under one field\<close>

lemma dict_update_not_iterable:
  "v = JNull \<or> v = JBool b \<or> v = JInt i \<or> v = JFloat q \<Longrightarrow> dict_update sub v = Inl TypeError"
  by (auto simp: dict_update_def seq_of_def)

lemma dict_update_string:
  "s \<noteq> [] \<Longrightarrow> dict_update sub (JStr s) = Inl ValueError"
  by (cases s) (simp_all add: dict_update_def seq_of_def)

lemma rec_meta_merge:
  "merge_dicts_by_url set_order [rec_meta a, rec_meta b] =
     and_then (merge_field set_order [(JStr ''EOSLogURL'', JStr ''k''), (JStr ''meta'', a)]
                 (JStr ''meta'', b))
       (\<lambda>md. Inr ([JDict [(JStr ''data'', JDict md)]], []))"
  by (simp add: merge_dicts_by_url_def group_by_url_def rec_meta_def item_url_def
      subscript_JDict get_method_JDict merge_group_def items_method_def and_then_def
      split: sum.splits)

text \<open>
  Claim C7, as amended. The fold has no error of its own for values of different kinds.
  When the combined value is a string, a number or \<^verbatim>\<open>None\<close> and the incoming value is a dict,
  nothing fails: the dict replaces the combined value. When the combined value is a dict
  and the incoming value is \<^verbatim>\<open>None\<close>, a boolean or a number, \<^verbatim>\<open>dict.update\<close> raises
  \<^verbatim>\<open>TypeError\<close>; for a string that is not empty it raises \<^verbatim>\<open>ValueError\<close>. The exception of
  one field ends the fold of the record, and the merger returns nothing: two records with
  the key k, \<^verbatim>\<open>meta={"x": 1}\<close> and then \<^verbatim>\<open>meta=5\<close>, end in \<^verbatim>\<open>TypeError\<close>; in the other order
  they are merged to \<^verbatim>\<open>meta={"x": 1}\<close>.
\<close>

theorem merge_field_type_mismatch:
  "(dict_lookup key md = Some old \<and> (is_primitive old \<or> old = JNull) \<longrightarrow>
      merge_field set_order md (key, JDict new) = Inr (dict_store key (JDict new) md))
   \<and> (dict_lookup key md = Some (JDict sub)
       \<and> (v = JNull \<or> v = JBool b \<or> v = JInt i \<or> v = JFloat q) \<longrightarrow>
      merge_field set_order md (key, v) = Inl TypeError)
   \<and> (dict_lookup key md = Some (JDict sub) \<and> s \<noteq> [] \<longrightarrow>
      merge_field set_order md (key, JStr s) = Inl ValueError)
   \<and> (merge_field set_order md kv = Inl err \<longrightarrow>
      merge_items set_order md (kv # rest) = Inl err)
   \<and> merge_dicts_by_url set_order [rec_meta (JDict [(JStr ''x'', JInt 1)]), rec_meta (JInt 5)]
      = Inl TypeError
   \<and> merge_dicts_by_url set_order [rec_meta (JInt 5), rec_meta (JDict [(JStr ''x'', JInt 1)])]
      = Inr ([rec_meta (JDict [(JStr ''x'', JInt 1)])], [])"
proof (intro conjI impI)
  assume "dict_lookup key md = Some old \<and> (is_primitive old \<or> old = JNull)"
  then show "merge_field set_order md (key, JDict new) = Inr (dict_store key (JDict new) md)"
    by (cases old) auto
next
  assume "dict_lookup key md = Some (JDict sub)
       \<and> (v = JNull \<or> v = JBool b \<or> v = JInt i \<or> v = JFloat q)"
  then show "merge_field set_order md (key, v) = Inl TypeError"
    using dict_update_not_iterable [of v b i q sub] by auto
next
  assume "dict_lookup key md = Some (JDict sub) \<and> s \<noteq> []"
  then show "merge_field set_order md (key, JStr s) = Inl ValueError"
    by (simp add: dict_update_string)
next
  assume "merge_field set_order md kv = Inl err"
  then show "merge_items set_order md (kv # rest) = Inl err" by simp
next
  show "merge_dicts_by_url set_order [rec_meta (JDict [(JStr ''x'', JInt 1)]), rec_meta (JInt 5)]
      = Inl TypeError"
    by (simp add: rec_meta_merge dict_update_def seq_of_def)
next
  show "merge_dicts_by_url set_order [rec_meta (JInt 5), rec_meta (JDict [(JStr ''x'', JInt 1)])]
      = Inr ([rec_meta (JDict [(JStr ''x'', JInt 1)])], [])"
    unfolding rec_meta_merge by (simp add: rec_meta_def)
qed

text \<open>Each case at concrete values.\<close>

theorem merge_field_type_mismatch_witness:
  "merge_field rev [(JStr ''meta'', JInt 5)] (JStr ''meta'', JDict [(JStr ''x'', JInt 1)])
     = Inr [(JStr ''meta'', JDict [(JStr ''x'', JInt 1)])]
   \<and> merge_field rev [(JStr ''meta'', JDict [(JStr ''x'', JInt 1)])] (JStr ''meta'', JInt 5)
     = Inl TypeError
   \<and> merge_field rev [(JStr ''meta'', JDict [(JStr ''x'', JInt 1)])] (JStr ''meta'', JStr ''ab'')
     = Inl ValueError
   \<and> merge_items rev [(JStr ''meta'', JDict [(JStr ''x'', JInt 1)])]
        [(JStr ''meta'', JInt 5), (JStr ''n'', JInt 1)]
     = Inl TypeError
   \<and> merge_dicts_by_url rev [rec_meta (JDict [(JStr ''x'', JInt 1)]), rec_meta (JInt 5)]
     = Inl TypeError"
  using merge_field_type_mismatch [of "JStr ''meta''" "[(JStr ''meta'', JInt 5)]" "JInt 5"
      rev "[(JStr ''x'', JInt 1)]"]
    merge_field_type_mismatch [of "JStr ''meta''" "[(JStr ''meta'', JDict [(JStr ''x'', JInt 1)])]"
      _ rev _ "[(JStr ''x'', JInt 1)]" "JInt 5" _ 5 _ "''ab''"
      "(JStr ''meta'', JInt 5)" TypeError "[(JStr ''n'', JInt 1)]"]
  by simp

text \<open>
  Claim C7 as it is written fails: a scalar met by a dict, and a dict met by the empty
  string, are merged without any error.
\<close>

theorem merge_conflict_counterexample:
  "merge_dicts_by_url rev [rec_meta (JInt 5), rec_meta (JDict [(JStr ''x'', JInt 1)])]
     = Inr ([rec_meta (JDict [(JStr ''x'', JInt 1)])], [])
   \<and> merge_dicts_by_url rev [rec_meta (JDict [(JStr ''x'', JInt 1)]), rec_meta (JStr '''')]
     = Inr ([rec_meta (JDict [(JStr ''x'', JInt 1)])], [])"
  unfolding rec_meta_merge by (simp add: rec_meta_def dict_update_def seq_of_def)


section \<open>Records without a key\<close>

lemma hkey_JNull [simp]: "hkey k = JNull \<longleftrightarrow> k = JNull"
  by (cases k) auto

lemma py_eq_JNull [simp]: "py_eq JNull k \<longleftrightarrow> k = JNull" "py_eq k JNull \<longleftrightarrow> k = JNull"
  by (auto simp: py_eq_def dest: sym)

lemma lacks_url_item_url: "lacks_url item \<Longrightarrow> item_url item = Inr JNull"
  by (auto simp: lacks_url_def item_url_JDict split: sum.splits json.splits)

lemma lacks_url_url_of: "lacks_url item \<Longrightarrow> url_of item = JNull"
  by (simp add: url_of_def lacks_url_item_url)

lemma first_seen_JNull:
  assumes "JNull \<in> set ks"
  shows "JNull \<in> set (first_seen ks)"
proof -
  have "hkey JNull \<in> hkey ` set (first_seen ks)"
    using assms first_seen_hkey_set [of ks] by blast
  then show ?thesis by (auto simp: image_iff dest: sym)
qed

lemma length_filter_mono:
  "(\<And>x. x \<in> set xs \<Longrightarrow> P x \<Longrightarrow> Q x) \<Longrightarrow> length (filter P xs) \<le> length (filter Q xs)"
  by (induction xs) auto

lemma keyless_group:
  assumes "item \<in> set dict_list" and "lacks_url item"
  shows "(JNull, members JNull dict_list) \<in> set (spec_groups dict_list)"
    and "item \<in> set (members JNull dict_list)"
proof -
  have "JNull \<in> set (map url_of dict_list)"
    using assms lacks_url_url_of by force
  then have "JNull \<in> set (first_seen (map url_of dict_list))" by (rule first_seen_JNull)
  then show "(JNull, members JNull dict_list) \<in> set (spec_groups dict_list)"
    by (auto simp: spec_groups_def)
  show "item \<in> set (members JNull dict_list)"
    using assms by (simp add: members_def lacks_url_url_of)
qed

lemma keyless_merged:
  assumes ok: "merge_dicts_by_url set_order dict_list = Inr (merged, singles)"
    and two: "2 \<le> length (filter lacks_url dict_list)"
  shows "\<exists>m. merge_group set_order (members JNull dict_list) = Inr m \<and> m \<in> set merged"
    and "item \<in> set dict_list \<Longrightarrow> lacks_url item \<Longrightarrow> item \<notin> set singles"
proof -
  have "length (filter lacks_url dict_list) \<le> length (members JNull dict_list)"
    unfolding members_def by (rule length_filter_mono) (simp add: lacks_url_url_of)
  then have big: "1 < length (members JNull dict_list)" using two by simp
  have "filter lacks_url dict_list \<noteq> []" using two by auto
  then have "hd (filter lacks_url dict_list) \<in> set (filter lacks_url dict_list)"
    by (rule hd_in_set)
  then obtain x where x: "x \<in> set dict_list" "lacks_url x" by auto
  have "JNull \<in> set (map url_of dict_list)" using x lacks_url_url_of by force
  then have "JNull \<in> set (first_seen (map url_of dict_list))" by (rule first_seen_JNull)
  then have "merge_group set_order (members JNull dict_list)
               \<in> set (map Inr merged :: (py_error + json) list)"
    unfolding merge_dicts_by_url_char(1) [OF ok] using big by simp
  then show "\<exists>m. merge_group set_order (members JNull dict_list) = Inr m \<and> m \<in> set merged"
    by auto
  show "item \<notin> set singles" if "item \<in> set dict_list" "lacks_url item"
  proof
    assume "item \<in> set singles"
    then have "members (url_of item) dict_list = [item]"
      using single_from_group [OF ok] by blast
    then show False using big that by (simp add: lacks_url_url_of)
  qed
qed

text \<open>
  Claim C9. Reading the key of a record whose \<^verbatim>\<open>data\<close> has no \<^verbatim>\<open>EOSLogURL\<close> raises nothing and
  gives \<^verbatim>\<open>None\<close>. If every record of the input either has no \<^verbatim>\<open>EOSLogURL\<close> or has a key that
  can be read and hashed, the grouping returns, and the records without \<^verbatim>\<open>EOSLogURL\<close> are
  all in the one group of the key \<^verbatim>\<open>None\<close>. When the merger returns and the input has at
  least two such records, that group is folded into one of the merged records and none of
  these records is unmatched.
\<close>

theorem keyless_records_grouped:
  assumes ok: "\<forall>item \<in> set dict_list.
                 lacks_url item \<or> (\<exists>u. item_url item = Inr u \<and> hashable u)"
  shows "(lacks_url r \<longrightarrow> item_url r = Inr JNull)
       \<and> (\<exists>url_groups. group_by_url dict_list = Inr url_groups
            \<and> (\<forall>item \<in> set dict_list. lacks_url item \<longrightarrow>
                  (JNull, members JNull dict_list) \<in> set url_groups
                  \<and> item \<in> set (members JNull dict_list)))
       \<and> (merge_dicts_by_url set_order dict_list = Inr (merged_dicts, single_entries)
            \<and> 2 \<le> length (filter lacks_url dict_list) \<longrightarrow>
              (\<exists>m. merge_group set_order (members JNull dict_list) = Inr m
                   \<and> m \<in> set merged_dicts)
              \<and> (\<forall>item \<in> set dict_list. lacks_url item \<longrightarrow> item \<notin> set single_entries))"
proof (intro conjI)
  show "lacks_url r \<longrightarrow> item_url r = Inr JNull" by (simp add: lacks_url_item_url)
  have "\<forall>i \<in> set dict_list. \<exists>u. item_url i = Inr u \<and> hashable u"
    using ok lacks_url_item_url by fastforce
  then obtain gs where gs: "group_by_url dict_list = Inr gs"
    using group_by_url_total [of dict_list "[]"] by (auto simp: group_by_url_def)
  then have "gs = spec_groups dict_list" by (rule group_by_url_spec)
  then show "\<exists>url_groups. group_by_url dict_list = Inr url_groups
            \<and> (\<forall>item \<in> set dict_list. lacks_url item \<longrightarrow>
                  (JNull, members JNull dict_list) \<in> set url_groups
                  \<and> item \<in> set (members JNull dict_list))"
    using gs keyless_group by blast
  show "merge_dicts_by_url set_order dict_list = Inr (merged_dicts, single_entries)
            \<and> 2 \<le> length (filter lacks_url dict_list) \<longrightarrow>
              (\<exists>m. merge_group set_order (members JNull dict_list) = Inr m
                   \<and> m \<in> set merged_dicts)
              \<and> (\<forall>item \<in> set dict_list. lacks_url item \<longrightarrow> item \<notin> set single_entries)"
    using keyless_merged by blast
qed


text \<open>
  A batch with two records without \<^verbatim>\<open>EOSLogURL\<close> around a record with the key u: the two are
  merged, the third is unmatched.
\<close>

theorem keyless_records_grouped_witness:
  "item_url (rec_nokey 1) = Inr JNull
   \<and> group_by_url batch_nokey =
       Inr [(JNull, [rec_nokey 1, rec_nokey 2]), (JStr ''u'', [rec_n ''u'' 7])]
   \<and> members JNull batch_nokey = [rec_nokey 1, rec_nokey 2]
   \<and> merge_dicts_by_url rev batch_nokey =
       Inr ([JDict [(JStr ''data'', JDict [(JStr ''n'', JInt 2)])]], [rec_n ''u'' 7])
   \<and> merge_group rev [rec_nokey 1, rec_nokey 2] =
       Inr (JDict [(JStr ''data'', JDict [(JStr ''n'', JInt 2)])])
   \<and> rec_nokey 1 \<notin> set [rec_n ''u'' 7] \<and> rec_nokey 2 \<notin> set [rec_n ''u'' 7]"
proof -
  have l: "lacks_url (rec_nokey n)" "\<not> lacks_url (rec_n x n)" for n x
    by (simp_all add: lacks_url_def rec_nokey_def rec_n_def subscript_JDict)
  have u: "item_url (rec_n x n) = Inr (JStr x)" for x n
    by (simp add: rec_n_def item_url_def subscript_JDict get_method_JDict)
  have hyp: "\<forall>item \<in> set batch_nokey.
               lacks_url item \<or> (\<exists>u. item_url item = Inr u \<and> hashable u)"
    by (simp add: batch_nokey_def l u)
  have g: "group_by_url batch_nokey =
       Inr [(JNull, [rec_nokey 1, rec_nokey 2]), (JStr ''u'', [rec_n ''u'' 7])]"
    by (simp add: group_by_url_def batch_nokey_def u lacks_url_item_url l)
  have m: "merge_dicts_by_url rev batch_nokey =
       Inr ([JDict [(JStr ''data'', JDict [(JStr ''n'', JInt 2)])]], [rec_n ''u'' 7])"
    unfolding merge_dicts_by_url_def g
    by (simp add: merge_group_def rec_nokey_def subscript_JDict items_method_def list_item_def)
  have mem: "members JNull batch_nokey = [rec_nokey 1, rec_nokey 2]"
    by (simp add: members_def batch_nokey_def lacks_url_url_of l url_of_rec_n)
  have two: "2 \<le> length (filter lacks_url batch_nokey)"
    by (simp add: batch_nokey_def l)
  show ?thesis
    using keyless_records_grouped [OF hyp, of "rec_nokey 1" rev
        "[JDict [(JStr ''data'', JDict [(JStr ''n'', JInt 2)])]]" "[rec_n ''u'' 7]"]
      g m mem two l
    by (auto simp: batch_nokey_def)
qed



end
